theory Spec2Isabelle
  imports Complex_Main
begin

section \<open>Todology: importing calendar assignments into a task service\<close>

text \<open>
  A shallow embedding of \<^verbatim>\<open>src/index.py\<close>. Python exceptions are values of the type
  \<open>error\<close>; a computation that may raise returns \<open>error + 'a\<close>, with \<open>Inl\<close> the
  exception. The collaborators of the program (the file system, the YAML and JSON
  parsers, the calendar feed and the task service) are the inputs of the model.
\<close>

subsection \<open>Exceptions\<close>

datatype error =
    AttributeError
  | TypeError
  | KeyError string
  | ValueError
  | OSError
  | Failure string
  | External string

text \<open>
  \<open>Failure msg\<close> is \<^verbatim>\<open>raise Exception(msg)\<close> of the program itself; \<open>External\<close> is any
  exception of a collaborator that the program lets through.
\<close>

subsection \<open>Calendar dates\<close>

record date =
  year :: int
  month :: int
  day :: int

definition is_leap :: "int \<Rightarrow> bool" where
  "is_leap y = (y mod 4 = 0 \<and> (y mod 100 \<noteq> 0 \<or> y mod 400 = 0))"

definition days_in_month :: "int \<Rightarrow> int \<Rightarrow> int" where
  "days_in_month y m =
     (if m = 2 then (if is_leap y then 29 else 28)
      else if m = 4 \<or> m = 6 \<or> m = 9 \<or> m = 11 then 30 else 31)"

text \<open>
  \<^verbatim>\<open>datetime.date(year, month, day)\<close>: the constructor raises \<^verbatim>\<open>ValueError\<close> outside
  \<^verbatim>\<open>MINYEAR = 1 .. MAXYEAR = 9999\<close>, months 1 to 12, and the days of the month.
\<close>

definition py_date :: "int \<Rightarrow> int \<Rightarrow> int \<Rightarrow> error + date" where
  "py_date y m d =
     (if 1 \<le> y \<and> y \<le> 9999 \<and> 1 \<le> m \<and> m \<le> 12 \<and> 1 \<le> d \<and> d \<le> days_in_month y m
      then Inr \<lparr>year = y, month = m, day = d\<rparr>
      else Inl ValueError)"

definition valid_date :: "date \<Rightarrow> bool" where
  "valid_date d = (py_date (year d) (month d) (day d) = Inr d)"

text \<open>The order of \<^verbatim>\<open>date\<close> objects: by year, then month, then day.\<close>

definition date_le :: "date \<Rightarrow> date \<Rightarrow> bool" where
  "date_le a b =
     (year a < year b \<or>
      (year a = year b \<and> (month a < month b \<or> (month a = month b \<and> day a \<le> day b))))"

text \<open>
  \<^verbatim>\<open>start_of_last_month\<close> (lines 148 to 152). \<^verbatim>\<open>date.today()\<close> is the parameter
  \<open>today\<close>.
\<close>

definition start_of_last_month :: "date \<Rightarrow> error + date" where
  "start_of_last_month today =
     (let year' = (if month today \<ge> 2 then year today else year today - 1);
          month' = (if month today \<ge> 2 then month today - 1 else 12)
      in py_date year' month' 1)"

text \<open>
  The words of the specification, "the first day of the month preceding today's
  month", read on the number of a month counted from year 0: the preceding month is
  the one whose number is one less.
\<close>

definition spec_month_number :: "date \<Rightarrow> int" where
  "spec_month_number d = 12 * year d + (month d - 1)"

subsection \<open>The feed address\<close>

text \<open>
  \<^verbatim>\<open>str.lstrip(chars)\<close> removes leading characters for as long as they belong to the
  set of characters \<open>chars\<close>.
\<close>

definition lstrip :: "string \<Rightarrow> string \<Rightarrow> string" where
  "lstrip chars s = dropWhile (\<lambda>c. c \<in> set chars) s"

text \<open>Line 231: \<^verbatim>\<open>'https://{}'.format(calendar.lstrip('webcal://'))\<close>.\<close>

definition feed_url :: "string \<Rightarrow> string" where
  "feed_url calendar = ''https://'' @ lstrip ''webcal://'' calendar"

text \<open>
  The reading of the specification: a leading \<^verbatim>\<open>webcal://\<close> is removed when it is
  there, and the rest of the address is left as it is.
\<close>

definition spec_feed_url :: "string \<Rightarrow> string" where
  "spec_feed_url calendar =
     ''https://'' @
       (if take 9 calendar = ''webcal://'' then drop 9 calendar else calendar)"

subsection \<open>Configuration documents\<close>

text \<open>
  What \<^verbatim>\<open>yaml.safe_load\<close> returns, and \<^verbatim>\<open>DEFAULT_CONFIG\<close>: scalars, sequences and
  mappings. A Python \<^verbatim>\<open>dict\<close> is a list of key and value pairs in insertion order,
  with no key twice (\<open>wf_doc\<close> below); the keys are strings, as every key of
  \<^verbatim>\<open>DEFAULT_CONFIG\<close> is.
\<close>

datatype yaml =
    YNull
  | YBool bool
  | YInt int
  | YStr string
  | YList "yaml list"
  | YDict "(string \<times> yaml) list"

fun is_dict :: "yaml \<Rightarrow> bool" where
  "is_dict (YDict _) = True"
| "is_dict _ = False"

fun is_str :: "yaml \<Rightarrow> bool" where
  "is_str (YStr _) = True"
| "is_str _ = False"

text \<open>\<^verbatim>\<open>d[k] = v\<close> on a \<^verbatim>\<open>dict\<close>: in place for a key that is there, at the end otherwise.\<close>

fun dict_set :: "(string \<times> yaml) list \<Rightarrow> string \<Rightarrow> yaml \<Rightarrow> (string \<times> yaml) list" where
  "dict_set [] k v = [(k, v)]"
| "dict_set ((k', v') # d) k v = (if k' = k then (k, v) # d else (k', v') # dict_set d k v)"

definition DEFAULT_CONFIG :: yaml where
  "DEFAULT_CONFIG = YDict
     [(''schoology'', YDict [(''calendar'', YNull)]),
      (''todoist'', YDict [(''apiToken'', YNull), (''project'', YStr ''Inbox''),
                          (''labels'', YList [YStr ''Todology''])]),
      (''storage'', YStr ''~/.todology'')]"

text \<open>
  \<^verbatim>\<open>merge(source, destination)\<close> (lines 57 to 76). \<^verbatim>\<open>source.items()\<close> raises
  \<^verbatim>\<open>AttributeError\<close> when \<open>source\<close> is no mapping. In the loop,
  \<^verbatim>\<open>destination.setdefault\<close> raises \<^verbatim>\<open>AttributeError\<close> and
  \<^verbatim>\<open>destination[key] = value\<close> raises \<^verbatim>\<open>TypeError\<close> when \<open>destination\<close> is no
  mapping (a string, a sequence indexed by a string, a number, \<^verbatim>\<open>None\<close>); with no
  item to loop over the destination is returned as it is. The function returns the
  destination it has updated.
\<close>

fun merge :: "yaml \<Rightarrow> yaml \<Rightarrow> error + yaml"
  and merge_items :: "(string \<times> yaml) list \<Rightarrow> yaml \<Rightarrow> error + yaml" where
  "merge (YDict items) destination = merge_items items destination"
| "merge _ destination = Inl AttributeError"
| "merge_items [] destination = Inr destination"
| "merge_items ((key, value) # rest) destination =
     (if is_dict value then
        (case destination of
           YDict d \<Rightarrow>
             (let node = (case map_of d key of Some n \<Rightarrow> n | None \<Rightarrow> YDict [])
              in case merge value node of
                   Inl e \<Rightarrow> Inl e
                 | Inr node' \<Rightarrow> merge_items rest (YDict (dict_set d key node')))
         | _ \<Rightarrow> Inl AttributeError)
      else
        (case destination of
           YDict d \<Rightarrow> merge_items rest (YDict (dict_set d key value))
         | _ \<Rightarrow> Inl TypeError))"

text \<open>The value of a document at a key path, when the path is there.\<close>

fun lookup_path :: "yaml \<Rightarrow> string list \<Rightarrow> yaml option" where
  "lookup_path v [] = Some v"
| "lookup_path (YDict d) (k # ks) =
     (case map_of d k of None \<Rightarrow> None | Some v \<Rightarrow> lookup_path v ks)"
| "lookup_path _ (k # ks) = None"

text \<open>No key twice in a mapping, at every level of nested mappings.\<close>

fun wf_doc :: "yaml \<Rightarrow> bool" where
  "wf_doc (YDict d) = (distinct (map fst d) \<and> (\<forall>v \<in> snd ` set d. wf_doc v))"
| "wf_doc _ = True"

text \<open>
  \<open>compat src dst\<close>: both are mappings, and wherever \<open>src\<close> has a mapping under a
  key that \<open>dst\<close> has too, the value of \<open>dst\<close> is a mapping as well, at every level.
\<close>

fun compat :: "yaml \<Rightarrow> yaml \<Rightarrow> bool" where
  "compat (YDict s) (YDict d) =
     (\<forall>(k, v) \<in> set s. is_dict v \<longrightarrow>
        (case map_of d k of None \<Rightarrow> True | Some dv \<Rightarrow> is_dict dv \<and> compat v dv))"
| "compat _ _ = False"

text \<open>
  \<open>absent src p\<close>: the path \<open>p\<close> leaves \<open>src\<close> at a mapping, one that has the keys of
  \<open>p\<close> so far and lacks the next one.
\<close>

fun absent :: "yaml \<Rightarrow> string list \<Rightarrow> bool" where
  "absent (YDict d) (k # ks) = (case map_of d k of None \<Rightarrow> True | Some v \<Rightarrow> absent v ks)"
| "absent _ _ = False"

definition node_of :: "(string \<times> yaml) list \<Rightarrow> string \<Rightarrow> yaml" where
  "node_of d key = (case map_of d key of Some n \<Rightarrow> n | None \<Rightarrow> YDict [])"

text \<open>\<^verbatim>\<open>obj[key]\<close> with a string key, as \<^verbatim>\<open>main\<close> reads the configuration.\<close>

fun py_getitem :: "yaml \<Rightarrow> string \<Rightarrow> error + yaml" where
  "py_getitem (YDict d) k = (case map_of d k of None \<Rightarrow> Inl (KeyError k) | Some v \<Rightarrow> Inr v)"
| "py_getitem _ k = Inl TypeError"

text \<open>\<^verbatim>\<open>for x in obj\<close>: what the loop over a configuration value goes through.\<close>

fun py_iter :: "yaml \<Rightarrow> error + yaml list" where
  "py_iter (YList xs) = Inr xs"
| "py_iter (YStr s) = Inr (map (\<lambda>c. YStr [c]) s)"
| "py_iter (YDict d) = Inr (map (\<lambda>(k, v). YStr k) d)"
| "py_iter _ = Inl TypeError"

subsection \<open>The import ledger\<close>

text \<open>What \<^verbatim>\<open>json.load\<close> returns. The ledger the program writes is an array of strings.\<close>

datatype json =
    JNull
  | JBool bool
  | JNum int
  | JStr string
  | JArr "json list"
  | JObj "(string \<times> json) list"

definition is_substring :: "string \<Rightarrow> string \<Rightarrow> bool" where
  "is_substring s t = list_ex (\<lambda>i. take (length s) (drop i t) = s) [0..<Suc (length t)]"

text \<open>\<^verbatim>\<open>uid in already_imported\<close>, for a string \<open>uid\<close>.\<close>

fun py_in :: "string \<Rightarrow> json \<Rightarrow> error + bool" where
  "py_in u (JArr xs) = Inr (JStr u \<in> set xs)"
| "py_in u (JObj d) = Inr (u \<in> fst ` set d)"
| "py_in u (JStr s) = Inr (is_substring u s)"
| "py_in u _ = Inl TypeError"

text \<open>\<^verbatim>\<open>already_imported.append(uid)\<close>.\<close>

fun py_append :: "json \<Rightarrow> string \<Rightarrow> error + json" where
  "py_append (JArr xs) u = Inr (JArr (xs @ [JStr u]))"
| "py_append _ u = Inl AttributeError"

subsection \<open>Calendar components and assignments\<close>

text \<open>
  The value of \<^verbatim>\<open>DTSTART\<close> is a \<^verbatim>\<open>date\<close> or a \<^verbatim>\<open>datetime\<close> (a date and a time of
  day, here in seconds). A component has the name of its class and the properties
  the program reads, each there or not.
\<close>

datatype dt = Date date | DateTime date nat

fun date_of :: "dt \<Rightarrow> date" where
  "date_of (Date d) = d"
| "date_of (DateTime d t) = d"

record component =
  kind :: string
  DTSTART :: "dt option"
  UID :: "string option"
  SUMMARY :: "string option"
  DESCRIPTION :: "string option"
  URL :: "string option"

record assignment =
  uid :: string
  title :: string
  desc :: string
  due :: date
  url :: string

subsection \<open>The world of a run\<close>

datatype fs_entry = NoFile | Unreadable | Content string

text \<open>The calls to the network, in the order the run makes them.\<close>

datatype call =
    Login string
  | Fetch string
  | GetProject yaml
  | AddProject yaml
  | GetLabel yaml
  | AddLabel yaml
  | AddTask nat string
  | UpdateTask nat date "nat list"

text \<open>
  The state a run changes: the global \<^verbatim>\<open>already_imported\<close>, the files, what was
  printed, and the calls made so far.
\<close>

record state =
  already_imported :: json
  files :: "string \<Rightarrow> fs_entry"
  stdout :: "string list"
  calls :: "call list"

text \<open>
  What a run is given. \<open>config_yml\<close> is the outcome of opening \<^verbatim>\<open>config.yml\<close> and of
  \<^verbatim>\<open>yaml.safe_load\<close>. The answers of the task service and of the feed may depend on
  the calls made before. A project or a label is its identifier; a new task is its
  identifier and the labels it has.
\<close>

record env =
  config_yml :: "error + yaml"
  expanduser :: "string \<Rightarrow> string"
  json_load :: "string \<Rightarrow> json option"
  json_dump :: "json \<Rightarrow> string"
  writable :: "string \<Rightarrow> bool"
  today :: date
  login_with_api_token :: "call list \<Rightarrow> string \<Rightarrow> error + unit"
  fetch_ical :: "call list \<Rightarrow> string \<Rightarrow> error + component list"
  get_project :: "call list \<Rightarrow> yaml \<Rightarrow> error + nat option"
  add_project :: "call list \<Rightarrow> yaml \<Rightarrow> error + nat"
  get_label_by_name :: "call list \<Rightarrow> yaml \<Rightarrow> error + nat option"
  add_label :: "call list \<Rightarrow> yaml \<Rightarrow> error + nat"
  add_task :: "call list \<Rightarrow> nat \<Rightarrow> string \<Rightarrow> error + nat \<times> nat list"
  update_task :: "call list \<Rightarrow> nat \<Rightarrow> date \<Rightarrow> nat list \<Rightarrow> error + unit"

text \<open>
  A statement of the program: from a state to a result or an exception, and the
  state it leaves. What was done before an exception stays done.
\<close>

type_synonym 'a prog = "state \<Rightarrow> (error + 'a) \<times> state"

definition return :: "'a \<Rightarrow> 'a prog" where
  "return x st = (Inr x, st)"

definition throw :: "error \<Rightarrow> 'a prog" where
  "throw e st = (Inl e, st)"

definition lift :: "error + 'a \<Rightarrow> 'a prog" where
  "lift r st = (r, st)"

definition bind :: "'a prog \<Rightarrow> ('a \<Rightarrow> 'b prog) \<Rightarrow> 'b prog" where
  "bind m f st = (case m st of (Inl e, st') \<Rightarrow> (Inl e, st') | (Inr x, st') \<Rightarrow> f x st')"

definition print :: "string \<Rightarrow> unit prog" where
  "print line st = (Inr (), st\<lparr>stdout := stdout st @ [line]\<rparr>)"

text \<open>A call to the network: it is recorded, and answered from the calls before it.\<close>

definition request :: "call \<Rightarrow> (call list \<Rightarrow> error + 'a) \<Rightarrow> 'a prog" where
  "request c answer st = (answer (calls st), st\<lparr>calls := calls st @ [c]\<rparr>)"

text \<open>
  \<^verbatim>\<open>load_imported_uids\<close> (lines 111 to 125). \<^verbatim>\<open>open\<close> stands before the \<^verbatim>\<open>try\<close>;
  every exception of \<^verbatim>\<open>json.load\<close> is caught.
\<close>

definition load_imported_uids :: "env \<Rightarrow> string \<Rightarrow> json prog" where
  "load_imported_uids E path st =
     (case files st path of
        NoFile \<Rightarrow> (Inr (JArr []), st)
      | Unreadable \<Rightarrow> (Inl OSError, st)
      | Content body \<Rightarrow>
          (case json_load E body of
             None \<Rightarrow> (Inr (JArr []), st)
           | Some ret \<Rightarrow> (Inr (if ret = JNull then JArr [] else ret), st)))"

text \<open>\<^verbatim>\<open>store_imported_uids\<close> (lines 128 to 131).\<close>

definition store_imported_uids :: "env \<Rightarrow> string \<Rightarrow> string \<Rightarrow> unit prog" where
  "store_imported_uids E directory path st =
     (if writable E directory \<and> writable E path
      then (Inr (), st\<lparr>files := (files st)(path := Content (json_dump E (already_imported st)))\<rparr>)
      else (Inl OSError, st))"

definition warning :: "string \<Rightarrow> string" where
  "warning name = ''WARNING: Unknown event type '' @ [CHR 0x60] @ name @ [CHR 0x60] @ ''. Ignoring.''"

text \<open>
  \<^verbatim>\<open>get_assignments\<close> (lines 155 to 170): the loop over \<^verbatim>\<open>cal.subcomponents\<close>, with the
  list \<^verbatim>\<open>assignments\<close> built so far. A missing property raises \<^verbatim>\<open>KeyError\<close> where the
  program reads it. The test \<^verbatim>\<open>type(comp).__name__ is not 'Event'\<close> compares two
  interned strings, and is read as the comparison of the names. \<^verbatim>\<open>date.today()\<close> is
  one date for the whole run.
\<close>

fun get_assignments_loop :: "env \<Rightarrow> component list \<Rightarrow> assignment list \<Rightarrow> assignment list prog" where
  "get_assignments_loop E [] assignments st = (Inr assignments, st)"
| "get_assignments_loop E (cmp # rest) assignments st =
     (if kind cmp \<noteq> ''Event'' then
        get_assignments_loop E rest assignments (st\<lparr>stdout := stdout st @ [warning (kind cmp)]\<rparr>)
      else case DTSTART cmp of
        None \<Rightarrow> (Inl (KeyError ''DTSTART''), st)
      | Some s \<Rightarrow>
          let start = date_of s in
          (case UID cmp of
             None \<Rightarrow> (Inl (KeyError ''UID''), st)
           | Some u \<Rightarrow>
               (case py_in u (already_imported st) of
                  Inl e \<Rightarrow> (Inl e, st)
                | Inr True \<Rightarrow> get_assignments_loop E rest assignments st
                | Inr False \<Rightarrow>
                    (case start_of_last_month (today E) of
                       Inl e \<Rightarrow> (Inl e, st)
                     | Inr cutoff \<Rightarrow>
                         if date_le cutoff start then
                           (case SUMMARY cmp of
                              None \<Rightarrow> (Inl (KeyError ''SUMMARY''), st)
                            | Some t \<Rightarrow>
                                (case DESCRIPTION cmp of
                                   None \<Rightarrow> (Inl (KeyError ''DESCRIPTION''), st)
                                 | Some d \<Rightarrow>
                                     (case URL cmp of
                                        None \<Rightarrow> (Inl (KeyError ''URL''), st)
                                      | Some r \<Rightarrow>
                                          get_assignments_loop E rest
                                            (assignments @
                                              [\<lparr>uid = u, title = t, desc = d, due = start, url = r\<rparr>])
                                            st)))
                         else get_assignments_loop E rest assignments st))))"

definition get_assignments :: "env \<Rightarrow> component list \<Rightarrow> assignment list prog" where
  "get_assignments E cal = get_assignments_loop E cal []"

text \<open>
  The reading of the specification. An event is selected when its identifier is not
  imported yet and its start, without the time of day, is not before the cutoff. The
  record of a selected event is built from its five properties.
\<close>

definition selected :: "string list \<Rightarrow> date \<Rightarrow> component \<Rightarrow> bool" where
  "selected ids cutoff c =
     (kind c = ''Event'' \<and>
      (case (DTSTART c, UID c) of
         (Some s, Some u) \<Rightarrow>
           u \<notin> set ids \<and> date_le cutoff (case s of Date d0 \<Rightarrow> d0 | DateTime d0 t0 \<Rightarrow> d0)
       | _ \<Rightarrow> False))"

definition spec_select :: "string list \<Rightarrow> date \<Rightarrow> component \<Rightarrow> assignment option" where
  "spec_select ids cutoff c =
     (if selected ids cutoff c then
        (case (DTSTART c, UID c, SUMMARY c, DESCRIPTION c, URL c) of
           (Some s, Some u, Some t, Some d, Some r) \<Rightarrow>
             Some \<lparr>uid = u, title = t, desc = d,
                   due = (case s of Date d0 \<Rightarrow> d0 | DateTime d0 t0 \<Rightarrow> d0), url = r\<rparr>
         | _ \<Rightarrow> None)
      else None)"

text \<open>
  What the filter reads of a component: of every event its start and its identifier,
  and of a selected event its title, its description and its address as well.
\<close>

definition readable :: "string list \<Rightarrow> date \<Rightarrow> component \<Rightarrow> bool" where
  "readable ids cutoff c =
     (kind c = ''Event'' \<longrightarrow>
        DTSTART c \<noteq> None \<and> UID c \<noteq> None \<and>
        (selected ids cutoff c \<longrightarrow>
           SUMMARY c \<noteq> None \<and> DESCRIPTION c \<noteq> None \<and> URL c \<noteq> None))"

definition complete :: "component \<Rightarrow> bool" where
  "complete c = (DTSTART c \<noteq> None \<and> UID c \<noteq> None \<and> SUMMARY c \<noteq> None
                 \<and> DESCRIPTION c \<noteq> None \<and> URL c \<noteq> None)"

text \<open>\<^verbatim>\<open>get_label\<close> (lines 173 to 177), and the \<^verbatim>\<open>.id\<close> of the label.\<close>

definition get_label :: "env \<Rightarrow> yaml \<Rightarrow> nat prog" where
  "get_label E name =
     bind (request (GetLabel name) (\<lambda>h. get_label_by_name E h name)) (\<lambda>label.
       case label of
         None \<Rightarrow> request (AddLabel name) (\<lambda>h. add_label E h name)
       | Some i \<Rightarrow> return i)"

fun get_labels :: "env \<Rightarrow> yaml list \<Rightarrow> nat list prog" where
  "get_labels E [] = return []"
| "get_labels E (label # rest) =
     bind (get_label E label) (\<lambda>i. bind (get_labels E rest) (\<lambda>is. return (i # is)))"

text \<open>The loop of \<^verbatim>\<open>todoist_add\<close> (lines 188 to 194).\<close>

fun push_tasks :: "env \<Rightarrow> nat \<Rightarrow> nat list \<Rightarrow> assignment list \<Rightarrow> unit prog" where
  "push_tasks E project labels [] = return ()"
| "push_tasks E project labels (a # rest) =
     bind (request (AddTask project (''['' @ title a @ '']('' @ url a @ '')''))
             (\<lambda>h. add_task E h project (''['' @ title a @ '']('' @ url a @ '')''))) (\<lambda>(task, task_labels).
     bind (request (UpdateTask task (due a) (task_labels @ labels))
             (\<lambda>h. update_task E h task (due a) (task_labels @ labels))) (\<lambda>_.
     bind (\<lambda>st. case py_append (already_imported st) (uid a) of
                  Inl e \<Rightarrow> (Inl e, st)
                | Inr l \<Rightarrow> (Inr (), st\<lparr>already_imported := l\<rparr>)) (\<lambda>_.
     push_tasks E project labels rest)))"

text \<open>
  The decorator \<^verbatim>\<open>rate_limited\<close> (lines 79 to 105) sleeps when the last call ended
  less than the interval ago, then calls the function once and returns what it
  returns. Time is not part of the state of a run: on that state the wrapped function
  is the function. The time is in the section on the clock below.
\<close>

definition rate_limited :: "'a prog \<Rightarrow> 'a prog" where
  "rate_limited f = f"

text \<open>
  \<^verbatim>\<open>todoist_add\<close> (lines 180 to 194). The \<^verbatim>\<open>user\<close> it is given is the task service of
  the run.
\<close>

definition todoist_add :: "env \<Rightarrow> yaml \<Rightarrow> yaml \<Rightarrow> assignment list \<Rightarrow> unit prog" where
  "todoist_add E projectName labels assignments =
     rate_limited
       (bind (request (GetProject projectName) (\<lambda>h. get_project E h projectName)) (\<lambda>project.
        bind (lift (py_iter labels)) (\<lambda>names.
        bind (get_labels E names) (\<lambda>labels'.
        bind (case project of
                None \<Rightarrow> request (AddProject projectName) (\<lambda>h. add_project E h projectName)
              | Some p \<Rightarrow> return p) (\<lambda>project'.
        push_tasks E project' labels' assignments)))))"

text \<open>\<^verbatim>\<open>todoist_login\<close> (lines 197 to 208): a \<^verbatim>\<open>KeyError\<close> is tried again, ten times.\<close>

function todoist_login :: "env \<Rightarrow> string \<Rightarrow> nat \<Rightarrow> unit prog" where
  "todoist_login E apiKey times' st =
     (case request (Login apiKey) (\<lambda>h. login_with_api_token E h apiKey) st of
        (Inr user, st') \<Rightarrow> (Inr user, st')
      | (Inl (KeyError k), st') \<Rightarrow>
          if times' \<ge> 10 then
            (Inl (Failure ''Unable to login to Todoist. (Got a KeyError 10 times!) Please try again.''), st')
          else todoist_login E apiKey (times' + 1) st'
      | (Inl e, st') \<Rightarrow> (Inl e, st'))"
  by pat_completeness auto
termination
  by (relation "measure (\<lambda>(E, apiKey, times', st). 10 - times')") auto

declare todoist_login.simps [simp del]

text \<open>\<^verbatim>\<open>main\<close> (lines 211 to 238).\<close>

definition main :: "env \<Rightarrow> unit prog" where
  "main E =
     bind (lift (config_yml E)) (\<lambda>loaded.
     bind (lift (merge loaded DEFAULT_CONFIG)) (\<lambda>merged.
     bind (if \<not> is_dict merged
           then bind (print ''WARNING: Invalid config.yml. Ignoring.'') (\<lambda>_. return DEFAULT_CONFIG)
           else return merged) (\<lambda>config.
     bind (lift (py_getitem config ''storage'')) (\<lambda>storage.
     bind (case storage of YStr s \<Rightarrow> return (expanduser E s) | _ \<Rightarrow> throw TypeError) (\<lambda>storage'.
     bind (case config of YDict d \<Rightarrow> return (YDict (dict_set d ''storage'' (YStr storage')))
                        | _ \<Rightarrow> throw TypeError) (\<lambda>config'.
     bind (return (storage' @ ''/'' @ ''imported.json'')) (\<lambda>imported_path.
     bind (lift (case py_getitem config' ''todoist'' of
                   Inl e \<Rightarrow> Inl e | Inr t \<Rightarrow> py_getitem t ''apiToken'')) (\<lambda>apiToken.
     bind (case apiToken of YStr s \<Rightarrow> return s
                          | _ \<Rightarrow> throw (Failure ''Invalid API Token!'')) (\<lambda>token.
     bind (lift (case py_getitem config' ''schoology'' of
                   Inl e \<Rightarrow> Inl e | Inr t \<Rightarrow> py_getitem t ''calendar'')) (\<lambda>calendar.
     bind (case calendar of YStr s \<Rightarrow> return s
                          | _ \<Rightarrow> throw (Failure ''Invalid Calendar URL!'')) (\<lambda>address.
     bind (load_imported_uids E imported_path) (\<lambda>loaded_uids.
     bind (\<lambda>st. (Inr (), st\<lparr>already_imported := loaded_uids\<rparr>)) (\<lambda>_.
     bind (todoist_login E token 0) (\<lambda>user.
     bind (request (Fetch (feed_url address)) (\<lambda>h. fetch_ical E h (feed_url address))) (\<lambda>cal.
     bind (get_assignments E cal) (\<lambda>assignments.
     bind (lift (case py_getitem config' ''todoist'' of
                   Inl e \<Rightarrow> Inl e | Inr t \<Rightarrow> py_getitem t ''project'')) (\<lambda>project.
     bind (lift (case py_getitem config' ''todoist'' of
                   Inl e \<Rightarrow> Inl e | Inr t \<Rightarrow> py_getitem t ''labels'')) (\<lambda>labels.
     bind (todoist_add E project labels assignments) (\<lambda>_.
     store_imported_uids E storage' imported_path)))))))))))))))))))"

subsection \<open>The rate limiter on the clock\<close>












subsection \<open>A run to compute with\<close>

text \<open>
  Two events and a component of another class: \<open>event_a\<close> starts on the cutoff of a run
  on 2016-01-31, \<open>event_b\<close> the day before; \<open>event_bare\<close> has a start and an
  identifier and nothing else.
\<close>

definition event_a :: component where
  "event_a = \<lparr>kind = ''Event'',
     DTSTART = Some (DateTime \<lparr>year = 2015, month = 12, day = 1\<rparr> 32400),
     UID = Some ''u1'', SUMMARY = Some ''Essay'', DESCRIPTION = Some ''First draft'',
     URL = Some ''https://school.example.org/a''\<rparr>"

definition event_b :: component where
  "event_b = \<lparr>kind = ''Event'',
     DTSTART = Some (Date \<lparr>year = 2015, month = 11, day = 30\<rparr>),
     UID = Some ''u2'', SUMMARY = Some ''Quiz'', DESCRIPTION = Some ''Chapter 3'',
     URL = Some ''https://school.example.org/b''\<rparr>"

definition event_c :: component where
  "event_c = \<lparr>kind = ''Event'',
     DTSTART = Some (Date \<lparr>year = 2016, month = 1, day = 12\<rparr>),
     UID = Some ''u3'', SUMMARY = Some ''Lab'', DESCRIPTION = Some ''Report'',
     URL = Some ''https://school.example.org/c''\<rparr>"

definition event_bare :: component where
  "event_bare = \<lparr>kind = ''Event'',
     DTSTART = Some (Date \<lparr>year = 2016, month = 1, day = 5\<rparr>),
     UID = Some ''u9'', SUMMARY = None, DESCRIPTION = None, URL = None\<rparr>"

definition todo_c :: component where
  "todo_c = \<lparr>kind = ''Todo'', DTSTART = None, UID = None, SUMMARY = None,
     DESCRIPTION = None, URL = None\<rparr>"

fun commas :: "string list \<Rightarrow> string" where
  "commas [] = []"
| "commas [x] = x"
| "commas (x # y # zs) = x @ '', '' @ commas (y # zs)"

definition example_dump :: "json \<Rightarrow> string" where
  "example_dump j =
     (case j of
        JArr xs \<Rightarrow>
          ''['' @ commas (map (\<lambda>x. case x of JStr s \<Rightarrow> [CHR 0x22] @ s @ [CHR 0x22]
                                          | _ \<Rightarrow> ''null'') xs) @ '']''
      | _ \<Rightarrow> ''null'')"

text \<open>
  A run on 2016-01-31 with an empty storage directory: the feed has the three
  components, the project is there, the label is not, and every call succeeds.
\<close>

definition example_env :: env where
  "example_env = \<lparr>
     config_yml = Inr (YDict
       [(''schoology'', YDict [(''calendar'', YStr ''webcal://feeds.school.example.org/1.ics'')]),
        (''todoist'', YDict [(''apiToken'', YStr ''0123abcd'')])]),
     expanduser = (\<lambda>p. if take 1 p = ''~'' then ''/home/u'' @ drop 1 p else p),
     json_load = (\<lambda>s. if s = ''[]'' then Some (JArr []) else None),
     json_dump = example_dump,
     writable = (\<lambda>p. True),
     today = \<lparr>year = 2016, month = 1, day = 31\<rparr>,
     login_with_api_token = (\<lambda>h k. Inr ()),
     fetch_ical = (\<lambda>h a. Inr [event_a, todo_c, event_b]),
     get_project = (\<lambda>h n. Inr (Some 7)),
     add_project = (\<lambda>h n. Inr 8),
     get_label_by_name = (\<lambda>h n. Inr None),
     add_label = (\<lambda>h n. Inr 3),
     add_task = (\<lambda>h p c. Inr (length h, [])),
     update_task = (\<lambda>h t d ls. Inr ())\<rparr>"

definition example_state :: state where
  "example_state = \<lparr>already_imported = JNull, files = (\<lambda>p. NoFile), stdout = [], calls = []\<rparr>"

definition failing_env :: env where
  "failing_env = example_env\<lparr>
     fetch_ical := (\<lambda>h a. Inr [event_a, event_c]),
     add_task := (\<lambda>h p c. if c = ''[Lab](https://school.example.org/c)''
                             then Inl (External ''503 Service Unavailable'')
                             else Inr (length h, []))\<rparr>"

text \<open>The same run with a configuration whose two credentials are empty strings.\<close>

definition empty_credentials_env :: env where
  "empty_credentials_env = example_env\<lparr>
     config_yml := Inr (YDict
       [(''schoology'', YDict [(''calendar'', YStr [])]),
        (''todoist'', YDict [(''apiToken'', YStr [])])]),
     login_with_api_token := (\<lambda>h k. Inl (External ''Invalid API token''))\<rparr>"

text \<open>
  The same run with the feed address of a calendar on \<^verbatim>\<open>app.schoology.com\<close>, where the
  fetch fails.
\<close>

definition schoology_env :: env where
  "schoology_env = example_env\<lparr>
     config_yml := Inr (YDict
       [(''schoology'',
           YDict [(''calendar'', YStr ''webcal://app.schoology.com/calendar/feed/ical/1'')]),
        (''todoist'', YDict [(''apiToken'', YStr ''0123abcd'')])]),
     fetch_ical := (\<lambda>h a. Inl (External ''HTTP Error 404''))\<rparr>"

subsection \<open>What a statement leaves alone\<close>

text \<open>
  \<open>keeps_files m\<close>: the statement \<open>m\<close> writes no file, however it ends.
  \<open>fails_clean m\<close>: when \<open>m\<close> ends with an exception, it has written no file.
\<close>

definition keeps_files :: "'a prog \<Rightarrow> bool" where
  "keeps_files m = (\<forall>st. files (snd (m st)) = files st)"

definition fails_clean :: "'a prog \<Rightarrow> bool" where
  "fails_clean m = (\<forall>st e st'. m st = (Inl e, st') \<longrightarrow> files st' = files st)"

section \<open>Properties\<close>

subsection \<open>The cutoff date\<close>

lemma py_date_first_day:
  "1 \<le> y \<Longrightarrow> y \<le> 9999 \<Longrightarrow> 1 \<le> m \<Longrightarrow> m \<le> 12
   \<Longrightarrow> py_date y m 1 = Inr \<lparr>year = y, month = m, day = 1\<rparr>"
  by (simp add: py_date_def days_in_month_def)

lemma valid_date_bounds:
  "valid_date d \<Longrightarrow> 1 \<le> year d \<and> year d \<le> 9999 \<and> 1 \<le> month d \<and> month d \<le> 12"
  by (simp add: valid_date_def py_date_def split: if_splits)

lemma start_of_last_month_valid:
  assumes v: "valid_date current" and n: "\<not> (year current = 1 \<and> month current = 1)"
  shows "\<exists>d. start_of_last_month current = Inr d \<and> valid_date d \<and> day d = 1
             \<and> spec_month_number d = spec_month_number current - 1"
proof -
  from valid_date_bounds [OF v]
  have b: "1 \<le> year current" "year current \<le> 9999" "1 \<le> month current" "month current \<le> 12"
    by simp_all
  show ?thesis
  proof (cases "2 \<le> month current")
    case True
    with b have "start_of_last_month current
        = Inr \<lparr>year = year current, month = month current - 1, day = 1\<rparr>"
      by (simp add: start_of_last_month_def py_date_first_day)
    with True b show ?thesis
      by (simp add: valid_date_def spec_month_number_def py_date_first_day)
  next
    case False
    with b have m1: "month current = 1" by simp
    with n b have y2: "2 \<le> year current" by simp
    from m1 y2 b have "start_of_last_month current
        = Inr \<lparr>year = year current - 1, month = 12, day = 1\<rparr>"
      by (simp add: start_of_last_month_def py_date_first_day)
    with m1 y2 b show ?thesis
      by (simp add: valid_date_def spec_month_number_def py_date_first_day)
  qed
qed

text \<open>
  Claim C3. For every current date \<open>current\<close> the cutoff computation returns the first
  day of the month before today's month: with \<open>month current \<ge> 2\<close> it is
  \<^verbatim>\<open>date(today.year, today.month - 1, 1)\<close>, in January it is
  \<^verbatim>\<open>date(today.year - 1, 12, 1)\<close>; for 2016-01-31 that is 2015-12-01 and for
  2016-03-15 it is 2016-02-01. For every date that \<^verbatim>\<open>date.today()\<close> can be, except
  January of year 1 (where \<^verbatim>\<open>date(0, 12, 1)\<close> is no date), the result is a date, its
  day is 1 and its month is the one before today's.
\<close>

theorem start_of_last_month_correct:
  "(2 \<le> month current \<longrightarrow>
      start_of_last_month current = py_date (year current) (month current - 1) 1) \<and>
   (\<not> 2 \<le> month current \<longrightarrow>
      start_of_last_month current = py_date (year current - 1) 12 1) \<and>
   start_of_last_month \<lparr>year = 2016, month = 1, day = 31\<rparr>
      = Inr \<lparr>year = 2015, month = 12, day = 1\<rparr> \<and>
   start_of_last_month \<lparr>year = 2016, month = 3, day = 15\<rparr>
      = Inr \<lparr>year = 2016, month = 2, day = 1\<rparr> \<and>
   (valid_date current \<and> \<not> (year current = 1 \<and> month current = 1) \<longrightarrow>
      (\<exists>d. start_of_last_month current = Inr d \<and> valid_date d \<and> day d = 1
           \<and> spec_month_number d = spec_month_number current - 1))"
proof -
  have a: "2 \<le> month current \<longrightarrow>
      start_of_last_month current = py_date (year current) (month current - 1) 1"
    by (simp add: start_of_last_month_def)
  have b: "\<not> 2 \<le> month current \<longrightarrow>
      start_of_last_month current = py_date (year current - 1) 12 1"
    by (simp add: start_of_last_month_def)
  have c: "start_of_last_month \<lparr>year = 2016, month = 1, day = 31\<rparr>
      = Inr \<lparr>year = 2015, month = 12, day = 1\<rparr>"
    by (simp add: start_of_last_month_def py_date_first_day)
  have d: "start_of_last_month \<lparr>year = 2016, month = 3, day = 15\<rparr>
      = Inr \<lparr>year = 2016, month = 2, day = 1\<rparr>"
    by (simp add: start_of_last_month_def py_date_first_day)
  from a b c d start_of_last_month_valid [of current] show ?thesis
    by blast
qed

theorem start_of_last_month_correct_witness:
  "valid_date \<lparr>year = 2024, month = 1, day = 9\<rparr> \<and>
   start_of_last_month \<lparr>year = 2024, month = 1, day = 9\<rparr> = py_date 2023 12 1 \<and>
   (\<exists>d. start_of_last_month \<lparr>year = 2024, month = 1, day = 9\<rparr> = Inr d \<and> valid_date d
        \<and> day d = 1 \<and> spec_month_number d = 12 * 2024 - 1) \<and>
   valid_date \<lparr>year = 2024, month = 7, day = 31\<rparr> \<and>
   start_of_last_month \<lparr>year = 2024, month = 7, day = 31\<rparr> = py_date 2024 6 1"
proof -
  have v1: "valid_date \<lparr>year = 2024, month = 1, day = 9\<rparr>"
    by (simp add: valid_date_def py_date_def days_in_month_def)
  have v2: "valid_date \<lparr>year = 2024, month = 7, day = 31\<rparr>"
    by (simp add: valid_date_def py_date_def days_in_month_def)
  let ?jan = "\<lparr>year = 2024, month = 1, day = 9\<rparr>"
  let ?jul = "\<lparr>year = 2024, month = 7, day = 31\<rparr>"
  have n1: "\<not> 2 \<le> month ?jan" and n1': "\<not> (year ?jan = 1 \<and> month ?jan = 1)"
    by simp_all
  have n2: "2 \<le> month ?jul"
    by simp
  from start_of_last_month_correct [of ?jan] n1
  have e1: "start_of_last_month ?jan = py_date (year ?jan - 1) 12 1"
    by blast
  from start_of_last_month_correct [of ?jan] v1 n1'
  have "\<exists>d. start_of_last_month ?jan = Inr d \<and> valid_date d \<and> day d = 1
           \<and> spec_month_number d = spec_month_number ?jan - 1"
    by blast
  then have x1: "\<exists>d. start_of_last_month ?jan = Inr d \<and> valid_date d \<and> day d = 1
           \<and> spec_month_number d = 12 * 2024 - 1"
    by (simp add: spec_month_number_def)
  from start_of_last_month_correct [of ?jul] n2
  have e2: "start_of_last_month ?jul = py_date (year ?jul) (month ?jul - 1) 1"
    by blast
  from e1 have e1': "start_of_last_month ?jan = py_date 2023 12 1"
    by simp
  from e2 have e2': "start_of_last_month ?jul = py_date 2024 6 1"
    by simp
  from v1 v2 e1' x1 e2' show ?thesis
    by blast
qed


subsection \<open>The assignment filter\<close>

lemma loop_append:
  "get_assignments_loop E (xs @ ys) acc st =
     (case get_assignments_loop E xs acc st of
        (Inl e, st') \<Rightarrow> (Inl e, st')
      | (Inr acc', st') \<Rightarrow> get_assignments_loop E ys acc' st')"
proof (induction xs arbitrary: acc st)
  case Nil
  then show ?case by simp
next
  case (Cons c xs)
  show ?case
  proof (cases "kind c = ''Event''")
    case False
    then show ?thesis by (simp add: Cons.IH)
  next
    case ev: True
    show ?thesis
    proof (cases "DTSTART c")
      case None
      with ev show ?thesis by simp
    next
      case s: (Some s)
      show ?thesis
      proof (cases "UID c")
        case None
        with ev s show ?thesis by simp
      next
        case u: (Some u)
        show ?thesis
        proof (cases "py_in u (already_imported st)")
          case (Inl e)
          with ev s u show ?thesis by simp
        next
          case (Inr b)
          show ?thesis
          proof (cases b)
            case True
            with ev s u Inr show ?thesis by (simp add: Cons.IH)
          next
            case nb: False
            show ?thesis
            proof (cases "start_of_last_month (today E)")
              case (Inl e)
              with ev s u Inr nb show ?thesis by simp
            next
              case cut: (Inr cutoff)
              show ?thesis
              proof (cases "date_le cutoff (date_of s)")
                case False
                with ev s u Inr nb cut show ?thesis by (simp add: Cons.IH)
              next
                case True
                with ev s u Inr nb cut show ?thesis
                  by (cases "SUMMARY c"; cases "DESCRIPTION c"; cases "URL c";
                      simp add: Cons.IH)
              qed
            qed
          qed
        qed
      qed
    qed
  qed
qed



lemma py_in_ids: "py_in u (JArr (map JStr ids)) = Inr (u \<in> set ids)"
  by auto

lemma loop_not_event:
  "kind c \<noteq> ''Event'' \<Longrightarrow>
   get_assignments_loop E (c # rest) acc st =
     get_assignments_loop E rest acc (st\<lparr>stdout := stdout st @ [warning (kind c)]\<rparr>)"
  by simp

lemma loop_no_start:
  "kind c = ''Event'' \<Longrightarrow> DTSTART c = None \<Longrightarrow>
   get_assignments_loop E (c # rest) acc st = (Inl (KeyError ''DTSTART''), st)"
  by simp

lemma loop_no_uid:
  "kind c = ''Event'' \<Longrightarrow> DTSTART c \<noteq> None \<Longrightarrow> UID c = None \<Longrightarrow>
   get_assignments_loop E (c # rest) acc st = (Inl (KeyError ''UID''), st)"
  by auto

lemma loop_imported:
  "kind c = ''Event'' \<Longrightarrow> DTSTART c = Some s \<Longrightarrow> UID c = Some u
   \<Longrightarrow> py_in u (already_imported st) = Inr True
   \<Longrightarrow> get_assignments_loop E (c # rest) acc st = get_assignments_loop E rest acc st"
  by simp

lemma loop_early:
  "kind c = ''Event'' \<Longrightarrow> DTSTART c = Some s \<Longrightarrow> UID c = Some u
   \<Longrightarrow> py_in u (already_imported st) = Inr False
   \<Longrightarrow> start_of_last_month (today E) = Inr cutoff \<Longrightarrow> \<not> date_le cutoff (date_of s)
   \<Longrightarrow> get_assignments_loop E (c # rest) acc st = get_assignments_loop E rest acc st"
  by simp

lemma loop_selected:
  "kind c = ''Event'' \<Longrightarrow> DTSTART c = Some s \<Longrightarrow> UID c = Some u
   \<Longrightarrow> py_in u (already_imported st) = Inr False
   \<Longrightarrow> start_of_last_month (today E) = Inr cutoff \<Longrightarrow> date_le cutoff (date_of s)
   \<Longrightarrow> get_assignments_loop E (c # rest) acc st =
      (case SUMMARY c of
         None \<Rightarrow> (Inl (KeyError ''SUMMARY''), st)
       | Some t \<Rightarrow>
           (case DESCRIPTION c of
              None \<Rightarrow> (Inl (KeyError ''DESCRIPTION''), st)
            | Some d \<Rightarrow>
                (case URL c of
                   None \<Rightarrow> (Inl (KeyError ''URL''), st)
                 | Some r \<Rightarrow>
                     get_assignments_loop E rest
                       (acc @ [\<lparr>uid = u, title = t, desc = d, due = date_of s, url = r\<rparr>]) st)))"
  by simp

lemma date_of_case: "date_of s = (case s of Date d0 \<Rightarrow> d0 | DateTime d0 t0 \<Rightarrow> d0)"
  by (cases s) simp_all

lemma selected_iff:
  "kind c = ''Event'' \<Longrightarrow> DTSTART c = Some s \<Longrightarrow> UID c = Some u
   \<Longrightarrow> selected ids cutoff c = (u \<notin> set ids \<and> date_le cutoff (date_of s))"
  by (simp add: selected_def date_of_case)

lemma not_selected_other: "kind c \<noteq> ''Event'' \<Longrightarrow> \<not> selected ids cutoff c"
  by (simp add: selected_def)

lemma loop_spec:
  assumes cut: "start_of_last_month (today E) = Inr cutoff"
  shows "already_imported st = JArr (map JStr ids)
    \<Longrightarrow> \<forall>c \<in> set comps. readable ids cutoff c
    \<Longrightarrow> get_assignments_loop E comps acc st =
        (Inr (acc @ List.map_filter (spec_select ids cutoff) comps),
         st\<lparr>stdout := stdout st @ map (\<lambda>c. warning (kind c)) (filter (\<lambda>c. kind c \<noteq> ''Event'') comps)\<rparr>)"
proof (induction comps arbitrary: acc st)
  case Nil
  then show ?case by simp
next
  case (Cons c comps)
  from Cons.prems(2) have rest: "\<forall>c \<in> set comps. readable ids cutoff c"
    and rc: "readable ids cutoff c"
    by simp_all
  note led = Cons.prems(1)
  show ?case
  proof (cases "kind c = ''Event''")
    case False
    let ?st = "st\<lparr>stdout := stdout st @ [warning (kind c)]\<rparr>"
    from False have sel: "spec_select ids cutoff c = None"
      by (simp add: spec_select_def not_selected_other)
    from led have "already_imported ?st = JArr (map JStr ids)" by simp
    from Cons.IH [OF this rest, of acc] have
      "get_assignments_loop E comps acc ?st =
        (Inr (acc @ List.map_filter (spec_select ids cutoff) comps),
         ?st\<lparr>stdout := stdout ?st @ map (\<lambda>c. warning (kind c)) (filter (\<lambda>c. kind c \<noteq> ''Event'') comps)\<rparr>)" .
    with False sel show ?thesis
      by (simp add: loop_not_event del: get_assignments_loop.simps)
  next
    case True
    with rc obtain s u where f: "DTSTART c = Some s" "UID c = Some u"
      by (auto simp: readable_def)
    note sel_iff = selected_iff [OF True f, of ids cutoff]
    from led have pin: "py_in u (already_imported st) = Inr (u \<in> set ids)"
      by (simp only: py_in_ids)
    show ?thesis
    proof (cases "selected ids cutoff c")
      case sel: True
      with sel_iff have nimp: "u \<notin> set ids" and late: "date_le cutoff (date_of s)"
        by simp_all
      from nimp pin have pf: "py_in u (already_imported st) = Inr False" by simp
      from rc True sel obtain t d r where g: "SUMMARY c = Some t" "DESCRIPTION c = Some d"
        "URL c = Some r"
        by (auto simp: readable_def)
      let ?a = "\<lparr>uid = u, title = t, desc = d, due = date_of s, url = r\<rparr>"
      from sel f g have s1: "spec_select ids cutoff c = Some ?a"
        by (simp add: spec_select_def date_of_case)
      from loop_selected [OF True f pf cut late, of comps acc] g
      have "get_assignments_loop E (c # comps) acc st
              = get_assignments_loop E comps (acc @ [?a]) st"
        by simp
      with Cons.IH [OF led rest, of "acc @ [?a]"] True s1 show ?thesis
        by (simp del: get_assignments_loop.simps)
    next
      case nsel: False
      then have s1: "spec_select ids cutoff c = None"
        by (simp add: spec_select_def)
      have "get_assignments_loop E (c # comps) acc st = get_assignments_loop E comps acc st"
      proof (cases "u \<in> set ids")
        case True
        with pin have "py_in u (already_imported st) = Inr True" by simp
        from loop_imported [OF \<open>kind c = ''Event''\<close> f this] show ?thesis .
      next
        case False
        with pin have pf: "py_in u (already_imported st) = Inr False" by simp
        from False nsel sel_iff have "\<not> date_le cutoff (date_of s)" by simp
        from loop_early [OF \<open>kind c = ''Event''\<close> f pf cut this] show ?thesis .
      qed
      with Cons.IH [OF led rest, of acc] True s1 show ?thesis
        by (simp del: get_assignments_loop.simps)
    qed
  qed
qed

lemma loop_raises:
  assumes cut: "start_of_last_month (today E) = Inr cutoff"
  shows "already_imported st = JArr (map JStr ids)
    \<Longrightarrow> \<exists>c \<in> set comps. \<not> readable ids cutoff c
    \<Longrightarrow> \<exists>k st'. get_assignments_loop E comps acc st = (Inl (KeyError k), st')"
proof (induction comps arbitrary: acc st)
  case Nil
  then show ?case by simp
next
  case (Cons c comps)
  note led = Cons.prems(1)
  show ?case
  proof (cases "readable ids cutoff c")
    case rc: True
    with Cons.prems(2) have later: "\<exists>c \<in> set comps. \<not> readable ids cutoff c" by auto
    from loop_spec [OF cut led, of "[c]" acc] rc
    have one: "get_assignments_loop E [c] acc st =
        (Inr (acc @ List.map_filter (spec_select ids cutoff) [c]),
         st\<lparr>stdout := stdout st @ map (\<lambda>c. warning (kind c)) (filter (\<lambda>c. kind c \<noteq> ''Event'') [c])\<rparr>)"
      by simp
    let ?st = "st\<lparr>stdout := stdout st @ map (\<lambda>c. warning (kind c)) (filter (\<lambda>c. kind c \<noteq> ''Event'') [c])\<rparr>"
    let ?acc = "acc @ List.map_filter (spec_select ids cutoff) [c]"
    from led have "already_imported ?st = JArr (map JStr ids)" by simp
    from Cons.IH [OF this later, of ?acc] obtain k st' where
      "get_assignments_loop E comps ?acc ?st = (Inl (KeyError k), st')"
      by blast
    moreover from loop_append [of E "[c]" comps acc st] one
    have "get_assignments_loop E (c # comps) acc st = get_assignments_loop E comps ?acc ?st"
      by (simp del: get_assignments_loop.simps)
    ultimately show ?thesis by simp
  next
    case nr: False
    then have ev: "kind c = ''Event''" by (simp add: readable_def)
    show ?thesis
    proof (cases "DTSTART c")
      case None
      from loop_no_start [OF ev None] show ?thesis by blast
    next
      case s: (Some s)
      show ?thesis
      proof (cases "UID c")
        case None
        with s loop_no_uid [OF ev _ None, of E comps acc st] show ?thesis by auto
      next
        case u: (Some u)
        from nr ev s u have sel: "selected ids cutoff c"
          and miss: "SUMMARY c = None \<or> DESCRIPTION c = None \<or> URL c = None"
          by (auto simp: readable_def)
        from sel selected_iff [OF ev s u, of ids cutoff]
        have nimp: "u \<notin> set ids" and late: "date_le cutoff (date_of s)" by simp_all
        from led have "py_in u (already_imported st) = Inr (u \<in> set ids)"
          by (simp only: py_in_ids)
        with nimp have pf: "py_in u (already_imported st) = Inr False" by simp
        note run = loop_selected [OF ev s u pf cut late, of comps acc]
        from miss consider "SUMMARY c = None"
          | t where "SUMMARY c = Some t" "DESCRIPTION c = None"
          | t d where "SUMMARY c = Some t" "DESCRIPTION c = Some d" "URL c = None"
          by (cases "SUMMARY c"; cases "DESCRIPTION c") auto
        then show ?thesis
        proof cases
          case 1
          with run show ?thesis by simp
        next
          case 2
          with run show ?thesis by simp
        next
          case 3
          with run show ?thesis by simp
        qed
      qed
    qed
  qed
qed

text \<open>
  Claim C1, as the program has it. Take a sequence of components, a set \<open>ids\<close> of
  identifiers imported already and a cutoff. When every event of the sequence has a
  start and an identifier, and every selected event (identifier not in \<open>ids\<close>, start
  not before the cutoff, a start on the cutoff included) has a title, a description and
  an address too, the filter returns one assignment record for each selected event and
  for no other component, built from the identifier, the title, the description, the
  start date without its time of day and the address, in the order of the input; it
  prints one warning for each component of another class and changes nothing else. For
  every other sequence the filter raises \<^verbatim>\<open>KeyError\<close>.
\<close>

theorem get_assignments_selects:
  assumes "start_of_last_month (today E) = Inr cutoff"
    and "already_imported st = JArr (map JStr ids)"
  shows "((\<forall>c \<in> set comps. readable ids cutoff c) \<longrightarrow>
            get_assignments E comps st =
              (Inr (List.map_filter (spec_select ids cutoff) comps),
               st\<lparr>stdout := stdout st @
                     map (\<lambda>c. warning (kind c)) (filter (\<lambda>c. kind c \<noteq> ''Event'') comps)\<rparr>)) \<and>
         (\<not> (\<forall>c \<in> set comps. readable ids cutoff c) \<longrightarrow>
            (\<exists>k st'. get_assignments E comps st = (Inl (KeyError k), st'))) \<and>
         (\<forall>c \<in> set comps. readable ids cutoff c \<longrightarrow>
            (selected ids cutoff c \<longleftrightarrow> spec_select ids cutoff c \<noteq> None))"
proof -
  have 1: "(\<forall>c \<in> set comps. readable ids cutoff c) \<longrightarrow>
            get_assignments E comps st =
              (Inr (List.map_filter (spec_select ids cutoff) comps),
               st\<lparr>stdout := stdout st @
                     map (\<lambda>c. warning (kind c)) (filter (\<lambda>c. kind c \<noteq> ''Event'') comps)\<rparr>)"
    using loop_spec [OF assms, of comps "[]"] by (simp add: get_assignments_def)
  have 2: "\<not> (\<forall>c \<in> set comps. readable ids cutoff c) \<longrightarrow>
            (\<exists>k st'. get_assignments E comps st = (Inl (KeyError k), st'))"
    using loop_raises [OF assms, of comps "[]"] by (simp add: get_assignments_def)
  have 3: "selected ids cutoff c \<longleftrightarrow> spec_select ids cutoff c \<noteq> None"
    if "readable ids cutoff c" for c
  proof (cases "selected ids cutoff c")
    case False
    then show ?thesis by (simp add: spec_select_def)
  next
    case True
    then have "kind c = ''Event''" by (simp add: selected_def)
    with that True show ?thesis
      by (auto simp: readable_def spec_select_def)
  qed
  from 1 2 3 show ?thesis by blast
qed

lemma example_cutoff:
  "start_of_last_month (today example_env) = Inr \<lparr>year = 2015, month = 12, day = 1\<rparr>"
  by (simp add: example_env_def start_of_last_month_def py_date_def days_in_month_def)

theorem get_assignments_selects_witness:
  "start_of_last_month (today example_env) = Inr \<lparr>year = 2015, month = 12, day = 1\<rparr> \<and>
   readable [''u9''] \<lparr>year = 2015, month = 12, day = 1\<rparr> event_a \<and>
   readable [''u9''] \<lparr>year = 2015, month = 12, day = 1\<rparr> todo_c \<and>
   readable [''u9''] \<lparr>year = 2015, month = 12, day = 1\<rparr> event_bare \<and>
   readable [''u9''] \<lparr>year = 2015, month = 12, day = 1\<rparr> event_b \<and>
   DTSTART event_a = Some (DateTime \<lparr>year = 2015, month = 12, day = 1\<rparr> 32400) \<and>
   get_assignments example_env [event_a, todo_c, event_bare, event_b]
       (example_state\<lparr>already_imported := JArr [JStr ''u9'']\<rparr>)
     = (Inr [\<lparr>uid = ''u1'', title = ''Essay'', desc = ''First draft'',
              due = \<lparr>year = 2015, month = 12, day = 1\<rparr>,
              url = ''https://school.example.org/a''\<rparr>],
        example_state\<lparr>already_imported := JArr [JStr ''u9''], stdout := [warning ''Todo'']\<rparr>)"
proof -
  let ?cut = "\<lparr>year = 2015, month = 12, day = 1\<rparr>"
  let ?st = "example_state\<lparr>already_imported := JArr [JStr ''u9'']\<rparr>"
  have h2: "already_imported ?st = JArr (map JStr [''u9''])" by simp
  have sa: "selected [''u9''] ?cut event_a" and sb: "\<not> selected [''u9''] ?cut event_b"
    and sc: "\<not> selected [''u9''] ?cut todo_c" and sd: "\<not> selected [''u9''] ?cut event_bare"
    by (simp_all add: selected_def event_a_def event_b_def todo_c_def event_bare_def date_le_def)
  have r: "readable [''u9''] ?cut event_a" "readable [''u9''] ?cut todo_c"
    "readable [''u9''] ?cut event_bare" "readable [''u9''] ?cut event_b"
    using sb sd by (simp_all add: readable_def event_a_def event_b_def todo_c_def event_bare_def)
  then have h3: "\<forall>c \<in> set [event_a, todo_c, event_bare, event_b]. readable [''u9''] ?cut c"
    by simp
  have ra: "spec_select [''u9''] ?cut event_a
      = Some \<lparr>uid = ''u1'', title = ''Essay'', desc = ''First draft'',
              due = \<lparr>year = 2015, month = 12, day = 1\<rparr>,
              url = ''https://school.example.org/a''\<rparr>"
    using sa by (simp add: spec_select_def event_a_def)
  have rn: "spec_select [''u9''] ?cut event_b = None" "spec_select [''u9''] ?cut todo_c = None"
    "spec_select [''u9''] ?cut event_bare = None"
    using sb sc sd by (simp_all add: spec_select_def)
  have kinds: "kind event_a = ''Event''" "kind event_b = ''Event''" "kind todo_c = ''Todo''"
    "kind event_bare = ''Event''"
    by (simp_all add: event_a_def event_b_def todo_c_def event_bare_def)
  have st: "stdout example_state = []" by (simp add: example_state_def)
  have da: "DTSTART event_a = Some (DateTime \<lparr>year = 2015, month = 12, day = 1\<rparr> 32400)"
    by (simp add: event_a_def)
  from get_assignments_selects [OF example_cutoff h2, of "[event_a, todo_c, event_bare, event_b]"] h3
  have "get_assignments example_env [event_a, todo_c, event_bare, event_b] ?st
     = (Inr (List.map_filter (spec_select [''u9''] ?cut) [event_a, todo_c, event_bare, event_b]),
        ?st\<lparr>stdout := stdout ?st @ map (\<lambda>c. warning (kind c))
              (filter (\<lambda>c. kind c \<noteq> ''Event'') [event_a, todo_c, event_bare, event_b])\<rparr>)"
    by blast
  then have "get_assignments example_env [event_a, todo_c, event_bare, event_b] ?st
     = (Inr [\<lparr>uid = ''u1'', title = ''Essay'', desc = ''First draft'',
              due = \<lparr>year = 2015, month = 12, day = 1\<rparr>,
              url = ''https://school.example.org/a''\<rparr>],
        example_state\<lparr>already_imported := JArr [JStr ''u9''], stdout := [warning ''Todo'']\<rparr>)"
    by (simp add: ra rn kinds st)
  with example_cutoff r da show ?thesis by blast
qed

text \<open>
  The claim C1 as it was stated, for every sequence of components, fails: \<open>event_bare\<close>
  is an event, its identifier is not in the empty ledger and it starts after the
  cutoff, and the filter returns no record for it but raises \<^verbatim>\<open>KeyError\<close>.
\<close>

theorem selected_event_without_title_raises:
  "kind event_bare = ''Event'' \<and> UID event_bare = Some ''u9'' \<and>
   DTSTART event_bare = Some (Date \<lparr>year = 2016, month = 1, day = 5\<rparr>) \<and>
   start_of_last_month (today example_env) = Inr \<lparr>year = 2015, month = 12, day = 1\<rparr> \<and>
   date_le \<lparr>year = 2015, month = 12, day = 1\<rparr> \<lparr>year = 2016, month = 1, day = 5\<rparr> \<and>
   get_assignments example_env [event_a, event_bare]
       (example_state\<lparr>already_imported := JArr []\<rparr>)
     = (Inl (KeyError ''SUMMARY''), example_state\<lparr>already_imported := JArr []\<rparr>)"
  by (simp add: get_assignments_def event_a_def event_bare_def example_cutoff date_le_def)

text \<open>
  Claim C10, as the program has it. When the loop reaches an event \<open>c\<close> after a
  prefix that it went through without an exception: a missing \<^verbatim>\<open>DTSTART\<close> or
  \<^verbatim>\<open>UID\<close> raises \<^verbatim>\<open>KeyError\<close>; a missing \<^verbatim>\<open>SUMMARY\<close>, \<^verbatim>\<open>DESCRIPTION\<close> or
  \<^verbatim>\<open>URL\<close> raises \<^verbatim>\<open>KeyError\<close> when the event is not imported yet and does not
  start before the cutoff; an event that is imported already or starts before the
  cutoff is skipped with no exception and no warning, whatever else it lacks. A
  component of another class is warned about and skipped, and raises nothing.
\<close>

theorem get_assignments_missing_property:
  assumes pre: "get_assignments E pre st = (Inr acc, st')"
  shows
   "(kind c = ''Event'' \<and> DTSTART c = None \<longrightarrow>
       get_assignments E (pre @ c # rest) st = (Inl (KeyError ''DTSTART''), st')) \<and>
    (kind c = ''Event'' \<and> DTSTART c \<noteq> None \<and> UID c = None \<longrightarrow>
       get_assignments E (pre @ c # rest) st = (Inl (KeyError ''UID''), st')) \<and>
    (kind c = ''Event'' \<and> DTSTART c = Some s \<and> UID c = Some u
       \<and> py_in u (already_imported st') = Inr False
       \<and> start_of_last_month (today E) = Inr cutoff \<and> date_le cutoff (date_of s)
       \<and> \<not> complete c \<longrightarrow>
       (\<exists>k. k \<in> {''SUMMARY'', ''DESCRIPTION'', ''URL''}
          \<and> get_assignments E (pre @ c # rest) st = (Inl (KeyError k), st'))) \<and>
    (kind c = ''Event'' \<and> DTSTART c = Some s \<and> UID c = Some u
       \<and> (py_in u (already_imported st') = Inr True
           \<or> (py_in u (already_imported st') = Inr False
               \<and> start_of_last_month (today E) = Inr cutoff
               \<and> \<not> date_le cutoff (date_of s))) \<longrightarrow>
       get_assignments E (pre @ c # rest) st = get_assignments_loop E rest acc st') \<and>
    (kind c \<noteq> ''Event'' \<longrightarrow>
       get_assignments E (pre @ c # rest) st
         = get_assignments_loop E rest acc (st'\<lparr>stdout := stdout st' @ [warning (kind c)]\<rparr>))"
proof -
  from pre have split: "get_assignments E (pre @ c # rest) st
      = get_assignments_loop E (c # rest) acc st'"
    by (simp add: get_assignments_def loop_append del: get_assignments_loop.simps)
  have 1: "kind c = ''Event'' \<and> DTSTART c = None \<longrightarrow>
       get_assignments E (pre @ c # rest) st = (Inl (KeyError ''DTSTART''), st')"
    unfolding split by (simp add: loop_no_start del: get_assignments_loop.simps)
  have 2: "kind c = ''Event'' \<and> DTSTART c \<noteq> None \<and> UID c = None \<longrightarrow>
       get_assignments E (pre @ c # rest) st = (Inl (KeyError ''UID''), st')"
    unfolding split by (simp add: loop_no_uid del: get_assignments_loop.simps)
  have 3: "kind c = ''Event'' \<and> DTSTART c = Some s \<and> UID c = Some u
       \<and> py_in u (already_imported st') = Inr False
       \<and> start_of_last_month (today E) = Inr cutoff \<and> date_le cutoff (date_of s)
       \<and> \<not> complete c \<longrightarrow>
       (\<exists>k. k \<in> {''SUMMARY'', ''DESCRIPTION'', ''URL''}
          \<and> get_assignments E (pre @ c # rest) st = (Inl (KeyError k), st'))"
  proof (intro impI, elim conjE)
    assume a: "kind c = ''Event''" "DTSTART c = Some s" "UID c = Some u"
      "py_in u (already_imported st') = Inr False"
      "start_of_last_month (today E) = Inr cutoff" "date_le cutoff (date_of s)"
      and nc: "\<not> complete c"
    note sel = loop_selected [OF a, of rest acc]
    from nc a(2,3) consider "SUMMARY c = None"
      | t where "SUMMARY c = Some t" "DESCRIPTION c = None"
      | t d where "SUMMARY c = Some t" "DESCRIPTION c = Some d" "URL c = None"
      by (auto simp: complete_def)
    then show "\<exists>k. k \<in> {''SUMMARY'', ''DESCRIPTION'', ''URL''}
          \<and> get_assignments E (pre @ c # rest) st = (Inl (KeyError k), st')"
    proof cases
      case 1
      with sel split have "get_assignments E (pre @ c # rest) st
          = (Inl (KeyError ''SUMMARY''), st')"
        by simp
      then show ?thesis by blast
    next
      case 2
      with sel split have "get_assignments E (pre @ c # rest) st
          = (Inl (KeyError ''DESCRIPTION''), st')"
        by simp
      then show ?thesis by blast
    next
      case 3
      with sel split have "get_assignments E (pre @ c # rest) st
          = (Inl (KeyError ''URL''), st')"
        by simp
      then show ?thesis by blast
    qed
  qed
  have 4: "kind c = ''Event'' \<and> DTSTART c = Some s \<and> UID c = Some u
       \<and> (py_in u (already_imported st') = Inr True
           \<or> (py_in u (already_imported st') = Inr False
               \<and> start_of_last_month (today E) = Inr cutoff
               \<and> \<not> date_le cutoff (date_of s))) \<longrightarrow>
       get_assignments E (pre @ c # rest) st = get_assignments_loop E rest acc st'"
    unfolding split using loop_imported [of c s u st' E rest acc]
      loop_early [of c s u st' E cutoff rest acc]
    by blast
  have 5: "kind c \<noteq> ''Event'' \<longrightarrow>
       get_assignments E (pre @ c # rest) st
         = get_assignments_loop E rest acc (st'\<lparr>stdout := stdout st' @ [warning (kind c)]\<rparr>)"
    unfolding split by (simp add: loop_not_event del: get_assignments_loop.simps)
  from 1 2 3 4 5 show ?thesis by blast
qed


theorem get_assignments_missing_property_witness:
  "get_assignments example_env [todo_c] (example_state\<lparr>already_imported := JArr []\<rparr>)
     = (Inr [], example_state\<lparr>already_imported := JArr [], stdout := [warning ''Todo'']\<rparr>) \<and>
   get_assignments example_env ([todo_c] @ event_bare\<lparr>DTSTART := None\<rparr> # [event_a])
       (example_state\<lparr>already_imported := JArr []\<rparr>)
     = (Inl (KeyError ''DTSTART''),
        example_state\<lparr>already_imported := JArr [], stdout := [warning ''Todo'']\<rparr>) \<and>
   (\<exists>k. k \<in> {''SUMMARY'', ''DESCRIPTION'', ''URL''} \<and>
      get_assignments example_env ([todo_c] @ event_bare # [event_a])
          (example_state\<lparr>already_imported := JArr []\<rparr>)
        = (Inl (KeyError k),
           example_state\<lparr>already_imported := JArr [], stdout := [warning ''Todo'']\<rparr>))"
proof -
  let ?st = "example_state\<lparr>already_imported := JArr []\<rparr>"
  let ?st' = "example_state\<lparr>already_imported := JArr [], stdout := [warning ''Todo'']\<rparr>"
  have pre: "get_assignments example_env [todo_c] ?st = (Inr [], ?st')"
    by (simp add: get_assignments_def todo_c_def example_state_def)
  have a: "kind (event_bare\<lparr>DTSTART := None\<rparr>) = ''Event''
      \<and> DTSTART (event_bare\<lparr>DTSTART := None\<rparr>) = None"
    by (simp add: event_bare_def)
  from get_assignments_missing_property [where c = "event_bare\<lparr>DTSTART := None\<rparr>"
      and rest = "[event_a]", OF pre] a
  have 1: "get_assignments example_env ([todo_c] @ event_bare\<lparr>DTSTART := None\<rparr> # [event_a]) ?st
     = (Inl (KeyError ''DTSTART''), ?st')"
    by blast
  have b: "kind event_bare = ''Event''
      \<and> DTSTART event_bare = Some (Date \<lparr>year = 2016, month = 1, day = 5\<rparr>)
      \<and> UID event_bare = Some ''u9''
      \<and> py_in ''u9'' (already_imported ?st') = Inr False
      \<and> start_of_last_month (today example_env) = Inr \<lparr>year = 2015, month = 12, day = 1\<rparr>
      \<and> date_le \<lparr>year = 2015, month = 12, day = 1\<rparr>
           (date_of (Date \<lparr>year = 2016, month = 1, day = 5\<rparr>))
      \<and> \<not> complete event_bare"
    by (simp add: event_bare_def example_cutoff date_le_def complete_def)
  from get_assignments_missing_property [where c = event_bare
      and s = "Date \<lparr>year = 2016, month = 1, day = 5\<rparr>" and u = "''u9''"
      and cutoff = "\<lparr>year = 2015, month = 12, day = 1\<rparr>" and rest = "[event_a]", OF pre] b
  have 2: "\<exists>k. k \<in> {''SUMMARY'', ''DESCRIPTION'', ''URL''} \<and>
      get_assignments example_env ([todo_c] @ event_bare # [event_a]) ?st
        = (Inl (KeyError k), ?st')"
    by blast
  from pre 1 2 show ?thesis by blast
qed

text \<open>
  The claim C10 as it was stated fails: an event with no \<^verbatim>\<open>SUMMARY\<close>, \<^verbatim>\<open>DESCRIPTION\<close>
  and \<^verbatim>\<open>URL\<close> is skipped, and the filter returns, when its identifier is in the
  ledger, and also when it starts before the cutoff.
\<close>

theorem bare_event_skipped_without_error:
  "kind event_bare = ''Event'' \<and> SUMMARY event_bare = None \<and> DESCRIPTION event_bare = None
   \<and> URL event_bare = None \<and>
   get_assignments example_env [event_bare]
       (example_state\<lparr>already_imported := JArr [JStr ''u9'']\<rparr>)
     = (Inr [], example_state\<lparr>already_imported := JArr [JStr ''u9'']\<rparr>) \<and>
   get_assignments example_env
       [event_bare\<lparr>DTSTART := Some (Date \<lparr>year = 2015, month = 11, day = 30\<rparr>)\<rparr>]
       (example_state\<lparr>already_imported := JArr []\<rparr>)
     = (Inr [], example_state\<lparr>already_imported := JArr []\<rparr>)"
  by (simp add: get_assignments_def event_bare_def example_cutoff date_le_def)

subsection \<open>Loading the ledger\<close>

text \<open>
  Claim C5. For a path with no file, and for a file whose content \<^verbatim>\<open>json.load\<close>
  cannot parse, \<^verbatim>\<open>load_imported_uids\<close> returns the empty ledger and raises nothing.
\<close>

theorem load_imported_uids_never_fails:
  "(files st path = NoFile \<longrightarrow> load_imported_uids E path st = (Inr (JArr []), st)) \<and>
   (files st path = Content body \<and> json_load E body = None \<longrightarrow>
      load_imported_uids E path st = (Inr (JArr []), st))"
  by (simp add: load_imported_uids_def)

theorem load_imported_uids_never_fails_witness:
  "files example_state ''/home/u/.todology/imported.json'' = NoFile \<and>
   load_imported_uids example_env ''/home/u/.todology/imported.json'' example_state
     = (Inr (JArr []), example_state) \<and>
   files (example_state\<lparr>files := (\<lambda>p. Content ''{not json'')\<rparr>)
       ''/home/u/.todology/imported.json'' = Content ''{not json'' \<and>
   json_load example_env ''{not json'' = None \<and>
   load_imported_uids example_env ''/home/u/.todology/imported.json''
       (example_state\<lparr>files := (\<lambda>p. Content ''{not json'')\<rparr>)
     = (Inr (JArr []), example_state\<lparr>files := (\<lambda>p. Content ''{not json'')\<rparr>)"
proof -
  let ?p = "''/home/u/.todology/imported.json''"
  let ?st = "example_state\<lparr>files := (\<lambda>p. Content ''{not json'')\<rparr>"
  have a: "files example_state ?p = NoFile"
    by (simp add: example_state_def)
  have b: "files ?st ?p = Content ''{not json''" by simp
  have c: "json_load example_env ''{not json'' = None"
    by (simp add: example_env_def)
  from load_imported_uids_never_fails [where st = example_state and path = ?p
      and E = example_env] a
  have 1: "load_imported_uids example_env ?p example_state = (Inr (JArr []), example_state)"
    by blast
  from load_imported_uids_never_fails [where st = ?st and path = ?p
      and body = "''{not json''" and E = example_env] b c
  have 2: "load_imported_uids example_env ?p ?st = (Inr (JArr []), ?st)"
    by blast
  from a 1 b c 2 show ?thesis by blast
qed

subsection \<open>The deep merge\<close>

lemma map_of_dict_set: "map_of (dict_set d k v) k' = (if k' = k then Some v else map_of d k')"
  by (induction d) auto

lemma compat_empty: "is_dict v \<Longrightarrow> compat v (YDict [])"
  by (cases v) auto

lemma node_of_dict_set: "k \<noteq> key \<Longrightarrow> node_of (dict_set d key n) k = node_of d k"
  by (simp add: node_of_def map_of_dict_set)

lemma merge_items_dict:
  "merge_items items dst = Inr M \<Longrightarrow> is_dict dst \<Longrightarrow> is_dict M"
proof (induction items arbitrary: dst)
  case Nil
  then show ?case by simp
next
  case (Cons a items)
  obtain key val where a: "a = (key, val)" by (cases a)
  from Cons.prems(2) obtain d where d: "dst = YDict d" by (cases dst) auto
  show ?case
  proof (cases "is_dict val")
    case True
    with Cons.prems(1) a d obtain n where
      "merge_items items (YDict (dict_set d key n)) = Inr M"
      by (auto split: sum.splits)
    then show ?thesis using Cons.IH by simp
  next
    case False
    with Cons.prems(1) a d have "merge_items items (YDict (dict_set d key val)) = Inr M"
      by simp
    then show ?thesis using Cons.IH by simp
  qed
qed

lemma merge_dict: "merge src dst = Inr M \<Longrightarrow> is_dict dst \<Longrightarrow> is_dict M"
  by (cases src) (auto dest: merge_items_dict)

lemma merge_items_other:
  "merge_items items (YDict d) = Inr (YDict m) \<Longrightarrow> k \<notin> fst ` set items
   \<Longrightarrow> map_of m k = map_of d k"
proof (induction items arbitrary: d)
  case Nil
  then show ?case by simp
next
  case (Cons a items)
  obtain key val where a: "a = (key, val)" by (cases a)
  from Cons.prems(2) a have ne: "k \<noteq> key" and notin: "k \<notin> fst ` set items" by auto
  show ?case
  proof (cases "is_dict val")
    case True
    with Cons.prems(1) a obtain n where
      "merge_items items (YDict (dict_set d key n)) = Inr (YDict m)"
      by (auto split: sum.splits)
    from Cons.IH [OF this notin] ne show ?thesis by (simp add: map_of_dict_set)
  next
    case False
    with Cons.prems(1) a have "merge_items items (YDict (dict_set d key val)) = Inr (YDict m)"
      by simp
    from Cons.IH [OF this notin] ne show ?thesis by (simp add: map_of_dict_set)
  qed
qed

lemma merge_items_key:
  "merge_items items (YDict d) = Inr (YDict m) \<Longrightarrow> distinct (map fst items)
   \<Longrightarrow> (k, v) \<in> set items
   \<Longrightarrow> (if is_dict v then \<exists>n. merge v (node_of d k) = Inr n \<and> map_of m k = Some n
        else map_of m k = Some v)"
proof (induction items arbitrary: d)
  case Nil
  then show ?case by simp
next
  case (Cons a items)
  obtain key val where a: "a = (key, val)" by (cases a)
  from Cons.prems(2) a have dist: "distinct (map fst items)" and fresh: "key \<notin> fst ` set items"
    by auto
  show ?case
  proof (cases "(k, v) = (key, val)")
    case here: True
    show ?thesis
    proof (cases "is_dict val")
      case True
      with Cons.prems(1) a obtain n where n: "merge val (node_of d key) = Inr n"
        and r: "merge_items items (YDict (dict_set d key n)) = Inr (YDict m)"
        by (auto simp: node_of_def split: sum.splits)
      from merge_items_other [OF r fresh] have "map_of m key = Some n"
        by (simp add: map_of_dict_set)
      with n here True show ?thesis by auto
    next
      case False
      with Cons.prems(1) a have r: "merge_items items (YDict (dict_set d key val)) = Inr (YDict m)"
        by simp
      from merge_items_other [OF r fresh] have "map_of m key = Some val"
        by (simp add: map_of_dict_set)
      with here False show ?thesis by auto
    qed
  next
    case False
    with Cons.prems(3) a have mem: "(k, v) \<in> set items" by auto
    with fresh have ne: "k \<noteq> key" by force
    show ?thesis
    proof (cases "is_dict val")
      case True
      with Cons.prems(1) a obtain n where
        r: "merge_items items (YDict (dict_set d key n)) = Inr (YDict m)"
        by (auto split: sum.splits)
      from Cons.IH [OF r dist mem] show ?thesis
        unfolding node_of_dict_set [OF ne] .
    next
      case False
      with Cons.prems(1) a have
        r: "merge_items items (YDict (dict_set d key val)) = Inr (YDict m)"
        by simp
      from Cons.IH [OF r dist mem] show ?thesis
        unfolding node_of_dict_set [OF ne] .
    qed
  qed
qed


lemma compat_dict_set:
  assumes "compat (YDict rest) (YDict d)" and "key \<notin> fst ` set rest"
  shows "compat (YDict rest) (YDict (dict_set d key n))"
proof -
  have "map_of (dict_set d key n) k = map_of d k" if "(k, v) \<in> set rest" for k v
  proof -
    from that assms(2) have "k \<noteq> key" by force
    then show ?thesis by (simp add: map_of_dict_set)
  qed
  with assms(1) show ?thesis by fastforce
qed

lemma compat_node:
  assumes "compat (YDict ((key, val) # rest)) (YDict d)" and "is_dict val"
  shows "compat val (node_of d key)" and "is_dict (node_of d key)"
  using assms by (auto simp: node_of_def compat_empty split: option.splits)

lemma merge_total:
  "wf_doc src \<longrightarrow> compat src dst \<longrightarrow> (\<exists>M. merge src dst = Inr M)"
  "distinct (map fst items) \<longrightarrow> (\<forall>v \<in> snd ` set items. wf_doc v)
     \<longrightarrow> compat (YDict items) dst \<longrightarrow> (\<exists>M. merge_items items dst = Inr M)"
proof (induction src dst and items dst rule: merge_merge_items.induct)
  case (1 items destination)
  then show ?case by simp
next
  case (4 key val rest destination)
  show ?case
  proof (intro impI)
    assume dist: "distinct (map fst ((key, val) # rest))"
      and wf: "\<forall>v \<in> snd ` set ((key, val) # rest). wf_doc v"
      and c: "compat (YDict ((key, val) # rest)) destination"
    from c obtain d where d: "destination = YDict d" by (cases destination) auto
    from dist have dist': "distinct (map fst rest)" and fresh: "key \<notin> fst ` set rest"
      by auto
    from wf have wf': "\<forall>v \<in> snd ` set rest. wf_doc v" and wfv: "wf_doc val" by auto
    from c d have crest: "compat (YDict rest) (YDict d)" by simp
    show "\<exists>M. merge_items ((key, val) # rest) destination = Inr M"
    proof (cases "is_dict val")
      case True
      from c [unfolded d] True have cn: "compat val (node_of d key)"
        by (rule compat_node)
      from "4.IH"(1) [OF True d, of "node_of d key"] wfv cn
      obtain n where n: "merge val (node_of d key) = Inr n"
        by (auto simp: node_of_def)
      from "4.IH"(2) [OF True d _ n [unfolded node_of_def]]
        dist' wf' compat_dict_set [OF crest fresh]
      obtain M where "merge_items rest (YDict (dict_set d key n)) = Inr M"
        by (auto simp: node_of_def)
      with True d n show ?thesis by (simp add: node_of_def)
    next
      case False
      from "4.IH"(3) [OF False d] dist' wf' compat_dict_set [OF crest fresh]
      obtain M where "merge_items rest (YDict (dict_set d key val)) = Inr M"
        by auto
      with False d show ?thesis by simp
    qed
  qed
qed simp_all


lemma compat_lookup:
  "compat (YDict items) (YDict d) \<Longrightarrow> (k, v) \<in> set items \<Longrightarrow> is_dict v
   \<Longrightarrow> compat v (node_of d k) \<and> is_dict (node_of d k)"
  by (fastforce simp: node_of_def compat_empty split: option.splits)

lemma lookup_path_leaf:
  "\<not> is_dict x \<Longrightarrow> lookup_path x ks = Some v \<Longrightarrow> ks = [] \<and> v = x"
  by (cases ks; cases x) auto

lemma merge_step:
  assumes wf: "wf_doc src" and c: "compat src dst" and mg: "merge src dst = Inr M"
  obtains items d m where "src = YDict items" and "dst = YDict d" and "M = YDict m"
    and "\<And>k. map_of items k = None \<Longrightarrow> map_of m k = map_of d k"
    and "\<And>k v. map_of items k = Some v \<Longrightarrow> \<not> is_dict v \<Longrightarrow> map_of m k = Some v"
    and "\<And>k v. map_of items k = Some v \<Longrightarrow> is_dict v \<Longrightarrow>
           \<exists>n. merge v (node_of d k) = Inr n \<and> map_of m k = Some n \<and> wf_doc v
               \<and> compat v (node_of d k) \<and> is_dict (node_of d k)"
proof -
  from c obtain items where s: "src = YDict items" by (cases src) auto
  from c s obtain d where d: "dst = YDict d" by (cases dst) auto
  from mg s d have mi: "merge_items items (YDict d) = Inr M" by simp
  from merge_items_dict [OF mi] obtain m where m: "M = YDict m" by (cases M) auto
  from wf s have dist: "distinct (map fst items)" and wfs: "\<forall>v \<in> snd ` set items. wf_doc v"
    by auto
  have 1: "map_of m k = map_of d k" if "map_of items k = None" for k
  proof -
    from that have "k \<notin> fst ` set items" by (simp add: map_of_eq_None_iff)
    with mi m show ?thesis by (simp add: merge_items_other)
  qed
  have 2: "map_of m k = Some v" if "map_of items k = Some v" and "\<not> is_dict v" for k v
  proof -
    from that(1) have "(k, v) \<in> set items" by (rule map_of_SomeD)
    from merge_items_key [OF mi [unfolded m] dist this] that(2) show ?thesis by simp
  qed
  have 3: "\<exists>n. merge v (node_of d k) = Inr n \<and> map_of m k = Some n \<and> wf_doc v
               \<and> compat v (node_of d k) \<and> is_dict (node_of d k)"
    if "map_of items k = Some v" and "is_dict v" for k v
  proof -
    from that(1) have mem: "(k, v) \<in> set items" by (rule map_of_SomeD)
    from merge_items_key [OF mi [unfolded m] dist mem] that(2)
    obtain n where "merge v (node_of d k) = Inr n" and "map_of m k = Some n" by auto
    moreover from wfs mem have "wf_doc v" by force
    moreover from compat_lookup [OF c [unfolded s d] mem that(2)]
    have "compat v (node_of d k)" and "is_dict (node_of d k)" by simp_all
    ultimately show ?thesis by blast
  qed
  from s d m 1 2 3 show thesis by (rule that)
qed

lemma merge_path_leaf:
  "wf_doc src \<Longrightarrow> compat src dst \<Longrightarrow> merge src dst = Inr M
   \<Longrightarrow> lookup_path src p = Some v \<Longrightarrow> \<not> is_dict v \<Longrightarrow> lookup_path M p = Some v"
proof (induction p arbitrary: src dst M)
  case Nil
  from Nil.prems(2) have "is_dict src" by (cases src) auto
  with Nil.prems(4,5) show ?case by simp
next
  case (Cons k ks)
  from Cons.prems(1-3) obtain items d m where s: "src = YDict items" and d: "dst = YDict d"
    and m: "M = YDict m"
    and other: "\<And>k. map_of items k = None \<Longrightarrow> map_of m k = map_of d k"
    and leaf: "\<And>k v. map_of items k = Some v \<Longrightarrow> \<not> is_dict v \<Longrightarrow> map_of m k = Some v"
    and sub: "\<And>k v. map_of items k = Some v \<Longrightarrow> is_dict v \<Longrightarrow>
           \<exists>n. merge v (node_of d k) = Inr n \<and> map_of m k = Some n \<and> wf_doc v
               \<and> compat v (node_of d k) \<and> is_dict (node_of d k)"
    by (rule merge_step) blast
  from Cons.prems(4) s obtain ov where ov: "map_of items k = Some ov"
    and rest: "lookup_path ov ks = Some v"
    by (auto split: option.splits)
  show ?case
  proof (cases "is_dict ov")
    case True
    from sub [OF ov True] obtain n where n: "merge ov (node_of d k) = Inr n"
      and mk: "map_of m k = Some n" and w: "wf_doc ov" and c: "compat ov (node_of d k)"
      by blast
    from Cons.IH [OF w c n rest Cons.prems(5)] m mk show ?thesis by simp
  next
    case False
    from lookup_path_leaf [OF False rest] have "ks = []" and "v = ov" by simp_all
    with leaf [OF ov False] m show ?thesis by simp
  qed
qed

lemma merge_path_dict:
  "wf_doc src \<Longrightarrow> compat src dst \<Longrightarrow> merge src dst = Inr M
   \<Longrightarrow> lookup_path src p = Some v \<Longrightarrow> is_dict v
   \<Longrightarrow> \<exists>w. lookup_path M p = Some w \<and> is_dict w"
proof (induction p arbitrary: src dst M)
  case Nil
  from Nil.prems(2) have "is_dict dst" by (cases src; cases dst) auto
  with Nil.prems(3) have "is_dict M" by (rule merge_dict)
  then show ?case by simp
next
  case (Cons k ks)
  from Cons.prems(1-3) obtain items d m where s: "src = YDict items" and d: "dst = YDict d"
    and m: "M = YDict m"
    and other: "\<And>k. map_of items k = None \<Longrightarrow> map_of m k = map_of d k"
    and leaf: "\<And>k v. map_of items k = Some v \<Longrightarrow> \<not> is_dict v \<Longrightarrow> map_of m k = Some v"
    and sub: "\<And>k v. map_of items k = Some v \<Longrightarrow> is_dict v \<Longrightarrow>
           \<exists>n. merge v (node_of d k) = Inr n \<and> map_of m k = Some n \<and> wf_doc v
               \<and> compat v (node_of d k) \<and> is_dict (node_of d k)"
    by (rule merge_step) blast
  from Cons.prems(4) s obtain ov where ov: "map_of items k = Some ov"
    and rest: "lookup_path ov ks = Some v"
    by (auto split: option.splits)
  have "is_dict ov"
  proof (rule ccontr)
    assume "\<not> is_dict ov"
    from lookup_path_leaf [OF this rest] Cons.prems(5) this show False by simp
  qed
  from sub [OF ov this] obtain n where n: "merge ov (node_of d k) = Inr n"
    and mk: "map_of m k = Some n" and w: "wf_doc ov" and c: "compat ov (node_of d k)"
    by blast
  from Cons.IH [OF w c n rest Cons.prems(5)] m mk show ?case by simp
qed

lemma absent_dict: "absent x ks \<Longrightarrow> is_dict x"
  by (cases x) auto

lemma merge_path_absent:
  "wf_doc src \<Longrightarrow> compat src dst \<Longrightarrow> merge src dst = Inr M
   \<Longrightarrow> lookup_path dst p = Some v \<Longrightarrow> absent src p \<Longrightarrow> lookup_path M p = Some v"
proof (induction p arbitrary: src dst M)
  case Nil
  from Nil.prems(5) show ?case by (cases src) auto
next
  case (Cons k ks)
  from Cons.prems(1-3) obtain items d m where s: "src = YDict items" and d: "dst = YDict d"
    and m: "M = YDict m"
    and other: "\<And>k. map_of items k = None \<Longrightarrow> map_of m k = map_of d k"
    and leaf: "\<And>k v. map_of items k = Some v \<Longrightarrow> \<not> is_dict v \<Longrightarrow> map_of m k = Some v"
    and sub: "\<And>k v. map_of items k = Some v \<Longrightarrow> is_dict v \<Longrightarrow>
           \<exists>n. merge v (node_of d k) = Inr n \<and> map_of m k = Some n \<and> wf_doc v
               \<and> compat v (node_of d k) \<and> is_dict (node_of d k)"
    by (rule merge_step) blast
  from Cons.prems(4) d obtain dv where dv: "map_of d k = Some dv"
    and rest: "lookup_path dv ks = Some v"
    by (auto split: option.splits)
  show ?case
  proof (cases "map_of items k")
    case None
    from other [OF None] dv rest m show ?thesis by simp
  next
    case (Some ov)
    with Cons.prems(5) s have a: "absent ov ks" by simp
    from sub [OF Some absent_dict [OF a]] obtain n where n: "merge ov (node_of d k) = Inr n"
      and mk: "map_of m k = Some n" and w: "wf_doc ov" and c: "compat ov (node_of d k)"
      by blast
    from dv have nd: "node_of d k = dv" by (simp add: node_of_def)
    from Cons.IH [OF w c [unfolded nd] n [unfolded nd] rest a] m mk show ?thesis by simp
  qed
qed


text \<open>
  Claim C4, as the program has it. For a loaded document \<open>src\<close> and a default
  document \<open>dst\<close> that are mappings, with \<open>dst\<close> holding a mapping wherever \<open>src\<close>
  holds one under a key of \<open>dst\<close>, the merge returns a document in which every key
  path of \<open>src\<close> to a value that is no mapping (sequences too) carries that value,
  every key path of \<open>src\<close> to a mapping leads to a mapping, and every key path of
  \<open>dst\<close> that leaves \<open>src\<close> at a mapping keeps the value of \<open>dst\<close>.
\<close>

theorem merge_key_paths:
  assumes "wf_doc src" and "compat src dst"
  shows "\<exists>M. merge src dst = Inr M \<and>
    (\<forall>p v. lookup_path src p = Some v \<and> \<not> is_dict v \<longrightarrow> lookup_path M p = Some v) \<and>
    (\<forall>p v. lookup_path src p = Some v \<and> is_dict v
        \<longrightarrow> (\<exists>w. lookup_path M p = Some w \<and> is_dict w)) \<and>
    (\<forall>p v. lookup_path dst p = Some v \<and> absent src p \<longrightarrow> lookup_path M p = Some v)"
proof -
  from merge_total(1) [of src dst] assms obtain M where M: "merge src dst = Inr M"
    by blast
  have "\<forall>p v. lookup_path src p = Some v \<and> \<not> is_dict v \<longrightarrow> lookup_path M p = Some v"
    using merge_path_leaf [OF assms M] by blast
  moreover have "\<forall>p v. lookup_path src p = Some v \<and> is_dict v
        \<longrightarrow> (\<exists>w. lookup_path M p = Some w \<and> is_dict w)"
    using merge_path_dict [OF assms M] by blast
  moreover have "\<forall>p v. lookup_path dst p = Some v \<and> absent src p
        \<longrightarrow> lookup_path M p = Some v"
    using merge_path_absent [OF assms M] by blast
  ultimately show ?thesis using M by blast
qed

theorem merge_key_paths_witness:
  "wf_doc (YDict [(''todoist'', YDict [(''project'', YStr ''School''),
                                       (''labels'', YList [YStr ''a'', YStr ''b''])]),
                  (''extra'', YDict [(''k'', YInt 1)])]) \<and>
   compat (YDict [(''todoist'', YDict [(''project'', YStr ''School''),
                                       (''labels'', YList [YStr ''a'', YStr ''b''])]),
                  (''extra'', YDict [(''k'', YInt 1)])]) DEFAULT_CONFIG \<and>
   (\<exists>M. merge (YDict [(''todoist'', YDict [(''project'', YStr ''School''),
                                            (''labels'', YList [YStr ''a'', YStr ''b''])]),
                       (''extra'', YDict [(''k'', YInt 1)])]) DEFAULT_CONFIG = Inr M \<and>
        lookup_path M [''todoist'', ''project''] = Some (YStr ''School'') \<and>
        lookup_path M [''todoist'', ''labels''] = Some (YList [YStr ''a'', YStr ''b'']) \<and>
        lookup_path M [''extra'', ''k''] = Some (YInt 1) \<and>
        lookup_path M [''todoist'', ''apiToken''] = Some YNull \<and>
        lookup_path M [''storage''] = Some (YStr ''~/.todology''))"
proof -
  let ?src = "YDict [(''todoist'', YDict [(''project'', YStr ''School''),
                                          (''labels'', YList [YStr ''a'', YStr ''b''])]),
                     (''extra'', YDict [(''k'', YInt 1)])]"
  have w: "wf_doc ?src" by simp
  have c: "compat ?src DEFAULT_CONFIG" by (simp add: DEFAULT_CONFIG_def)
  from merge_key_paths [OF w c] obtain M where M: "merge ?src DEFAULT_CONFIG = Inr M"
    and leaf: "\<And>p v. lookup_path ?src p = Some v \<Longrightarrow> \<not> is_dict v \<Longrightarrow> lookup_path M p = Some v"
    and keep: "\<And>p v. lookup_path DEFAULT_CONFIG p = Some v \<Longrightarrow> absent ?src p
                \<Longrightarrow> lookup_path M p = Some v"
    by blast
  have 1: "lookup_path M [''todoist'', ''project''] = Some (YStr ''School'')"
    by (rule leaf) simp_all
  have 2: "lookup_path M [''todoist'', ''labels''] = Some (YList [YStr ''a'', YStr ''b''])"
    by (rule leaf) simp_all
  have 3: "lookup_path M [''extra'', ''k''] = Some (YInt 1)"
    by (rule leaf) simp_all
  have 4: "lookup_path M [''todoist'', ''apiToken''] = Some YNull"
    by (rule keep) (simp_all add: DEFAULT_CONFIG_def)
  have 5: "lookup_path M [''storage''] = Some (YStr ''~/.todology'')"
    by (rule keep) (simp_all add: DEFAULT_CONFIG_def)
  from w c M 1 2 3 4 5 show ?thesis by blast
qed

text \<open>
  The claim C4 as it was stated, for every pair of mapping documents, fails where the
  loaded document has a mapping and the default has a value that is none: the merge
  raises, or with an empty mapping keeps the default's value.
\<close>

theorem merge_mapping_over_scalar:
  "merge (YDict [(''storage'', YDict [(''dir'', YStr ''/data'')])]) DEFAULT_CONFIG
     = Inl TypeError \<and>
   merge (YDict [(''storage'', YDict [(''dir'', YDict [(''a'', YInt 1)])])]) DEFAULT_CONFIG
     = Inl AttributeError \<and>
   merge (YDict [(''storage'', YDict [])]) DEFAULT_CONFIG = Inr DEFAULT_CONFIG \<and>
   lookup_path (YDict [(''storage'', YDict [])]) [''storage''] = Some (YDict []) \<and>
   lookup_path DEFAULT_CONFIG [''storage''] = Some (YStr ''~/.todology'')"
  by (simp add: DEFAULT_CONFIG_def)

subsection \<open>The run as a whole\<close>

lemma keeps_files_return: "keeps_files (return x)"
  and keeps_files_throw: "keeps_files (throw e)"
  and keeps_files_lift: "keeps_files (lift r)"
  and keeps_files_print: "keeps_files (print line)"
  and keeps_files_request: "keeps_files (request c answer)"
  by (simp_all add: keeps_files_def return_def throw_def lift_def print_def request_def)

lemma keeps_files_bind:
  assumes "keeps_files m" and "\<And>x. keeps_files (f x)"
  shows "keeps_files (bind m f)"
proof (unfold keeps_files_def, rule allI)
  fix st
  obtain r st1 where m: "m st = (r, st1)" by (cases "m st")
  with assms(1) have f1: "files st1 = files st"
    by (auto simp: keeps_files_def dest: spec [of _ st])
  show "files (snd (bind m f st)) = files st"
  proof (cases r)
    case (Inl e)
    with m f1 show ?thesis by (simp add: bind_def)
  next
    case (Inr x)
    from assms(2) [of x] have "files (snd (f x st1)) = files st1"
      by (simp add: keeps_files_def)
    with m Inr f1 show ?thesis by (simp add: bind_def)
  qed
qed

lemma fails_clean_bind:
  assumes "keeps_files m" and "\<And>x. fails_clean (f x)"
  shows "fails_clean (bind m f)"
proof (unfold fails_clean_def, intro allI impI)
  fix st e st'
  assume b: "bind m f st = (Inl e, st')"
  obtain r st1 where m: "m st = (r, st1)" by (cases "m st")
  with assms(1) have f1: "files st1 = files st"
    by (auto simp: keeps_files_def dest: spec [of _ st])
  show "files st' = files st"
  proof (cases r)
    case (Inl e')
    with m b f1 show ?thesis by (simp add: bind_def)
  next
    case (Inr x)
    with m b have "f x st1 = (Inl e, st')" by (simp add: bind_def)
    with assms(2) [of x] have "files st' = files st1"
      by (simp add: fails_clean_def)
    with f1 show ?thesis by simp
  qed
qed

lemma keeps_files_if:
  "keeps_files a \<Longrightarrow> keeps_files b \<Longrightarrow> keeps_files (if c then a else b)"
  by simp

lemma keeps_files_case_yaml:
  "keeps_files a \<Longrightarrow> (\<And>v. keeps_files (b v)) \<Longrightarrow> (\<And>v. keeps_files (c v))
   \<Longrightarrow> (\<And>v. keeps_files (d v)) \<Longrightarrow> (\<And>v. keeps_files (e v)) \<Longrightarrow> (\<And>v. keeps_files (f v))
   \<Longrightarrow> keeps_files (case_yaml a b c d e f x)"
  by (cases x) simp_all

lemma keeps_files_case_option:
  "keeps_files a \<Longrightarrow> (\<And>v. keeps_files (b v)) \<Longrightarrow> keeps_files (case_option a b x)"
  by (cases x) simp_all

lemma keeps_files_case_prod:
  "(\<And>a b. keeps_files (f a b)) \<Longrightarrow> keeps_files (case_prod f x)"
  by (cases x) simp

lemma keeps_files_update:
  "keeps_files (\<lambda>st. (Inr (), st\<lparr>already_imported := l\<rparr>))"
  by (simp add: keeps_files_def)

lemma keeps_files_append:
  "keeps_files (\<lambda>st. case py_append (already_imported st) u of
                  Inl e \<Rightarrow> (Inl e, st)
                | Inr l \<Rightarrow> (Inr (), st\<lparr>already_imported := l\<rparr>))"
  by (simp add: keeps_files_def split: sum.splits)

lemma keeps_files_load: "keeps_files (load_imported_uids E path)"
  by (simp add: keeps_files_def load_imported_uids_def split: fs_entry.splits option.splits)

lemma fails_clean_store: "fails_clean (store_imported_uids E directory path)"
  by (simp add: fails_clean_def store_imported_uids_def)

lemma login_files: "files (snd (todoist_login E apiKey n st)) = files st"
proof (induction "10 - n" arbitrary: n st)
  case 0
  then have n: "10 \<le> n" by simp
  show ?case
    by (subst todoist_login.simps) (simp add: request_def n split: sum.splits error.splits)
next
  case (Suc k)
  then have n: "\<not> 10 \<le> n" and k: "k = 10 - Suc n" by simp_all
  note IH = Suc.hyps(1) [OF k]
  show ?case
    by (subst todoist_login.simps) (simp add: request_def n IH split: sum.splits error.splits)
qed

lemma keeps_files_login: "keeps_files (todoist_login E apiKey n)"
  by (simp add: keeps_files_def login_files)


lemma loop_step_cases:
  "(\<exists>e. get_assignments_loop E (c # rest) acc st = (Inl e, st)) \<or>
   get_assignments_loop E (c # rest) acc st
     = get_assignments_loop E rest acc (st\<lparr>stdout := stdout st @ [warning (kind c)]\<rparr>) \<or>
   (\<exists>acc'. get_assignments_loop E (c # rest) acc st = get_assignments_loop E rest acc' st)"
proof (cases "kind c = ''Event''")
  case False
  then show ?thesis by (simp add: loop_not_event del: get_assignments_loop.simps)
next
  case ev: True
  show ?thesis
  proof (cases "DTSTART c")
    case None
    with ev show ?thesis by (simp add: loop_no_start del: get_assignments_loop.simps)
  next
    case s: (Some s)
    show ?thesis
    proof (cases "UID c")
      case None
      with ev s show ?thesis by (simp add: loop_no_uid del: get_assignments_loop.simps)
    next
      case u: (Some u)
      show ?thesis
      proof (cases "py_in u (already_imported st)")
        case (Inl e)
        with ev s u show ?thesis by simp
      next
        case (Inr b)
        show ?thesis
        proof (cases b)
          case True
          with Inr have "py_in u (already_imported st) = Inr True" by simp
          from loop_imported [OF ev s u this, of E rest acc] show ?thesis by blast
        next
          case nb: False
          with Inr have pf: "py_in u (already_imported st) = Inr False" by simp
          show ?thesis
          proof (cases "start_of_last_month (today E)")
            case (Inl e)
            with ev s u pf show ?thesis by simp
          next
            case cut: (Inr cutoff)
            show ?thesis
            proof (cases "date_le cutoff (date_of s)")
              case False
              from loop_early [OF ev s u pf cut False, of rest acc] show ?thesis by blast
            next
              case True
              note sel = loop_selected [OF ev s u pf cut True, of rest acc]
              show ?thesis
              proof (cases "SUMMARY c")
                case None
                with sel show ?thesis by simp
              next
                case t: (Some t)
                show ?thesis
                proof (cases "DESCRIPTION c")
                  case None
                  with sel t show ?thesis by simp
                next
                  case d: (Some d)
                  show ?thesis
                  proof (cases "URL c")
                    case None
                    with sel t d show ?thesis by simp
                  next
                    case (Some r)
                    with sel t d have "get_assignments_loop E (c # rest) acc st
                      = get_assignments_loop E rest
                          (acc @ [\<lparr>uid = u, title = t, desc = d, due = date_of s, url = r\<rparr>]) st"
                      by simp
                    then show ?thesis by blast
                  qed
                qed
              qed
            qed
          qed
        qed
      qed
    qed
  qed
qed

lemma loop_state:
  "\<exists>w. snd (get_assignments_loop E comps acc st) = st\<lparr>stdout := stdout st @ w\<rparr>"
proof (induction comps arbitrary: acc st)
  case Nil
  have "snd (get_assignments_loop E [] acc st) = st\<lparr>stdout := stdout st @ []\<rparr>" by simp
  then show ?case by blast
next
  case (Cons c comps)
  from loop_step_cases [of E c comps acc st]
  consider e where "get_assignments_loop E (c # comps) acc st = (Inl e, st)"
    | "get_assignments_loop E (c # comps) acc st
        = get_assignments_loop E comps acc (st\<lparr>stdout := stdout st @ [warning (kind c)]\<rparr>)"
    | acc' where "get_assignments_loop E (c # comps) acc st = get_assignments_loop E comps acc' st"
    by blast
  then show ?case
  proof cases
    case 1
    then have "snd (get_assignments_loop E (c # comps) acc st) = st\<lparr>stdout := stdout st @ []\<rparr>"
      by simp
    then show ?thesis by blast
  next
    case 2
    let ?st = "st\<lparr>stdout := stdout st @ [warning (kind c)]\<rparr>"
    from Cons.IH [of acc ?st] obtain w where
      "snd (get_assignments_loop E comps acc ?st) = ?st\<lparr>stdout := stdout ?st @ w\<rparr>"
      by blast
    with 2 have "snd (get_assignments_loop E (c # comps) acc st)
        = st\<lparr>stdout := stdout st @ ([warning (kind c)] @ w)\<rparr>"
      by simp
    then show ?thesis by blast
  next
    case 3
    with Cons.IH [of acc' st] show ?thesis by simp
  qed
qed

lemma keeps_files_get_assignments: "keeps_files (get_assignments E cal)"
proof -
  have "files (snd (get_assignments_loop E cal [] st)) = files st" for st
  proof -
    from loop_state [of E cal "[]" st] obtain w where
      "snd (get_assignments_loop E cal [] st) = st\<lparr>stdout := stdout st @ w\<rparr>"
      by blast
    then show ?thesis by simp
  qed
  then show ?thesis by (simp add: keeps_files_def get_assignments_def)
qed

lemma keeps_files_get_label: "keeps_files (get_label E name)"
  unfolding get_label_def
  by (intro keeps_files_bind keeps_files_request keeps_files_case_option keeps_files_return)

lemma keeps_files_get_labels: "keeps_files (get_labels E names)"
  by (induction names)
     (auto intro!: keeps_files_bind keeps_files_return keeps_files_get_label)

lemma keeps_files_push_tasks: "keeps_files (push_tasks E project labels assignments)"
  by (induction assignments)
     (auto intro!: keeps_files_bind keeps_files_return keeps_files_request
        keeps_files_case_prod keeps_files_append)

lemma keeps_files_todoist_add: "keeps_files (todoist_add E projectName labels assignments)"
  unfolding todoist_add_def rate_limited_def
  by (intro keeps_files_bind keeps_files_request keeps_files_lift keeps_files_get_labels
      keeps_files_case_option keeps_files_return keeps_files_push_tasks)

lemma fails_clean_main: "fails_clean (main E)"
  unfolding main_def
  by (intro fails_clean_bind keeps_files_bind keeps_files_if keeps_files_case_yaml
      keeps_files_lift keeps_files_print keeps_files_return keeps_files_throw
      keeps_files_load keeps_files_update keeps_files_login keeps_files_request
      keeps_files_get_assignments keeps_files_todoist_add fails_clean_store)

subsection \<open>Runs of the example\<close>

lemma bind_lift_Inl: "bind (lift (Inl e)) f st = (Inl e, st)"
  and bind_lift_Inr: "bind (lift (Inr x)) f st = f x st"
  and bind_return: "bind (return x) f st = f x st"
  and bind_throw: "bind (throw e) f st = (Inl e, st)"
  by (simp_all add: bind_def lift_def return_def throw_def)

lemmas run_defs = main_def bind_def lift_def return_def throw_def print_def request_def
  load_imported_uids_def store_imported_uids_def get_assignments_def todoist_add_def
  rate_limited_def get_label_def feed_url_def lstrip_def

lemma successful_run:
  "main example_env example_state =
     (Inr (),
      \<lparr>already_imported = JArr [JStr ''u1''],
       files = (\<lambda>p. NoFile)
         (''/home/u/.todology/imported.json'' := Content (example_dump (JArr [JStr ''u1'']))),
       stdout = [warning ''Todo''],
       calls = [Login ''0123abcd'', Fetch ''https://feeds.school.example.org/1.ics'',
                GetProject (YStr ''Inbox''), GetLabel (YStr ''Todology''),
                AddLabel (YStr ''Todology''),
                AddTask 7 ''[Essay](https://school.example.org/a)'',
                UpdateTask 5 \<lparr>year = 2015, month = 12, day = 1\<rparr> [3]]\<rparr>)"
  by (simp add: run_defs todoist_login.simps example_env_def example_state_def
      DEFAULT_CONFIG_def event_a_def event_b_def todo_c_def start_of_last_month_def
      py_date_def days_in_month_def date_le_def example_dump_def)

lemma failing_run:
  "main failing_env example_state =
     (Inl (External ''503 Service Unavailable''),
      \<lparr>already_imported = JArr [JStr ''u1''], files = (\<lambda>p. NoFile), stdout = [],
       calls = [Login ''0123abcd'', Fetch ''https://feeds.school.example.org/1.ics'',
                GetProject (YStr ''Inbox''), GetLabel (YStr ''Todology''),
                AddLabel (YStr ''Todology''),
                AddTask 7 ''[Essay](https://school.example.org/a)'',
                UpdateTask 5 \<lparr>year = 2015, month = 12, day = 1\<rparr> [3],
                AddTask 7 ''[Lab](https://school.example.org/c)'']\<rparr>)"
  by (simp add: run_defs todoist_login.simps failing_env_def example_env_def example_state_def
      DEFAULT_CONFIG_def event_a_def event_c_def start_of_last_month_def py_date_def
      days_in_month_def date_le_def)

lemma push_tasks_failure:
  "push_tasks E p ls as st = (Inl e, st') \<Longrightarrow> already_imported st = JArr xs
   \<Longrightarrow> \<exists>n<length as. already_imported st' = JArr (xs @ map (\<lambda>a. JStr (uid a)) (take n as))"
proof (induction as arbitrary: st xs)
  case Nil
  then show ?case by (simp add: return_def)
next
  case (Cons a rest)
  let ?content = "''['' @ title a @ '']('' @ url a @ '')''"
  let ?st1 = "st\<lparr>calls := calls st @ [AddTask p ?content]\<rparr>"
  show ?case
  proof (cases "add_task E (calls st) p ?content")
    case (Inl e1)
    with Cons.prems have "st' = ?st1" by (simp add: bind_def request_def)
    with Cons.prems(2) have "already_imported st' = JArr (xs @ map (\<lambda>a. JStr (uid a)) (take 0 (a # rest)))"
      by simp
    then show ?thesis by blast
  next
    case (Inr tk)
    obtain task tls where tk: "tk = (task, tls)" by (cases tk)
    let ?st2 = "?st1\<lparr>calls := calls ?st1 @ [UpdateTask task (due a) (tls @ ls)]\<rparr>"
    show ?thesis
    proof (cases "update_task E (calls ?st1) task (due a) (tls @ ls)")
      case (Inl e2)
      with Cons.prems(1) Inr tk have "st' = ?st2" by (simp add: bind_def request_def)
      with Cons.prems(2) have "already_imported st' = JArr (xs @ map (\<lambda>a. JStr (uid a)) (take 0 (a # rest)))"
        by simp
      then show ?thesis by blast
    next
      case upd: (Inr u)
      let ?st3 = "?st2\<lparr>already_imported := JArr (xs @ [JStr (uid a)])\<rparr>"
      from Cons.prems Inr tk upd have run: "push_tasks E p ls rest ?st3 = (Inl e, st')"
        by (simp add: bind_def request_def)
      have "already_imported ?st3 = JArr (xs @ [JStr (uid a)])" by simp
      from Cons.IH [OF run this] obtain n where n: "n < length rest"
        and l: "already_imported st' = JArr ((xs @ [JStr (uid a)]) @ map (\<lambda>a. JStr (uid a)) (take n rest))"
        by blast
      from l have "already_imported st' = JArr (xs @ map (\<lambda>a. JStr (uid a)) (take (Suc n) (a # rest)))"
        by simp
      moreover from n have "Suc n < length (a # rest)" by simp
      ultimately show ?thesis by blast
    qed
  qed
qed

subsection \<open>A push that fails\<close>

text \<open>
  Claim C2, as the program has it. When the run ends with an exception, and so when
  the creation of a task fails partway through the loop of the push, no file has been
  written: the ledger file is as it was before the run. The identifiers of the
  assignments pushed before the one that failed are in the ledger in memory, and only
  there: the loop that fails has appended those of a proper prefix of the assignments,
  and has written no file. The exception of the push is the outcome of the last two
  statements of \<^verbatim>\<open>main\<close>: the store is not run.
\<close>

theorem push_failure_not_persisted:
  "(main E st = (Inl e, st') \<longrightarrow> files st' = files st) \<and>
   (push_tasks E project labels assignments st1 = (Inl e1, st1')
      \<and> already_imported st1 = JArr xs \<longrightarrow>
      files st1' = files st1 \<and>
      (\<exists>n<length assignments.
          already_imported st1' = JArr (xs @ map (\<lambda>a. JStr (uid a)) (take n assignments)))) \<and>
   (todoist_add E projectName names assignments st2 = (Inl e2, st2') \<longrightarrow>
      bind (todoist_add E projectName names assignments)
           (\<lambda>_. store_imported_uids E directory path) st2 = (Inl e2, st2'))"
proof -
  have 1: "main E st = (Inl e, st') \<longrightarrow> files st' = files st"
    using fails_clean_main [of E] by (simp add: fails_clean_def)
  have 2: "files st1' = files st1"
    if "push_tasks E project labels assignments st1 = (Inl e1, st1')"
  proof -
    from keeps_files_push_tasks [of E project labels assignments]
    have "files (snd (push_tasks E project labels assignments st1)) = files st1"
      by (simp add: keeps_files_def)
    with that show ?thesis by simp
  qed
  have 3: "todoist_add E projectName names assignments st2 = (Inl e2, st2') \<longrightarrow>
      bind (todoist_add E projectName names assignments)
           (\<lambda>_. store_imported_uids E directory path) st2 = (Inl e2, st2')"
    by (simp add: bind_def)
  from 1 2 3 push_tasks_failure [of E project labels assignments st1 e1 st1' xs]
  show ?thesis by blast
qed

theorem push_failure_not_persisted_witness:
  "main failing_env example_state =
     (Inl (External ''503 Service Unavailable''),
      \<lparr>already_imported = JArr [JStr ''u1''], files = (\<lambda>p. NoFile), stdout = [],
       calls = [Login ''0123abcd'', Fetch ''https://feeds.school.example.org/1.ics'',
                GetProject (YStr ''Inbox''), GetLabel (YStr ''Todology''),
                AddLabel (YStr ''Todology''),
                AddTask 7 ''[Essay](https://school.example.org/a)'',
                UpdateTask 5 \<lparr>year = 2015, month = 12, day = 1\<rparr> [3],
                AddTask 7 ''[Lab](https://school.example.org/c)'']\<rparr>) \<and>
   files \<lparr>already_imported = JArr [JStr ''u1''], files = (\<lambda>p. NoFile), stdout = [],
       calls = [Login ''0123abcd'', Fetch ''https://feeds.school.example.org/1.ics'',
                GetProject (YStr ''Inbox''), GetLabel (YStr ''Todology''),
                AddLabel (YStr ''Todology''),
                AddTask 7 ''[Essay](https://school.example.org/a)'',
                UpdateTask 5 \<lparr>year = 2015, month = 12, day = 1\<rparr> [3],
                AddTask 7 ''[Lab](https://school.example.org/c)'']\<rparr>
     = files example_state"
proof -
  note run = failing_run
  from push_failure_not_persisted [where E = failing_env and st = example_state
      and e = "External ''503 Service Unavailable''", THEN conjunct1, THEN mp, OF run]
  show ?thesis using run by simp
qed

text \<open>
  The claim C2 as it was stated fails: in a run whose second task cannot be created the
  exception reaches the caller of \<^verbatim>\<open>main\<close>, the identifier \<^verbatim>\<open>u1\<close> of the first
  assignment is in the ledger in memory, and there is no ledger file after the run.
\<close>

theorem failed_push_leaves_no_ledger_file:
  "fst (main failing_env example_state) = Inl (External ''503 Service Unavailable'') \<and>
   already_imported (snd (main failing_env example_state)) = JArr [JStr ''u1''] \<and>
   files (snd (main failing_env example_state)) ''/home/u/.todology/imported.json'' = NoFile"
  by (simp add: failing_run)

subsection \<open>A configuration that is no mapping\<close>

text \<open>
  Claim C7. The claim: a loaded document that is no mapping is discarded with a
  warning, and the run goes on with the defaults. In the program the test on the
  document stands after the merge, and the merge of a document that is no mapping (an
  empty file, a scalar, a sequence) raises \<^verbatim>\<open>AttributeError\<close>: the run ends there, with
  nothing printed.
\<close>

theorem main_non_mapping_config:
  "main (E\<lparr>config_yml := Inr YNull\<rparr>) st = (Inl AttributeError, st) \<and>
   main (E\<lparr>config_yml := Inr (YStr s)\<rparr>) st = (Inl AttributeError, st) \<and>
   main (E\<lparr>config_yml := Inr (YList xs)\<rparr>) st = (Inl AttributeError, st) \<and>
   main (E\<lparr>config_yml := Inr (YInt i)\<rparr>) st = (Inl AttributeError, st) \<and>
   main (E\<lparr>config_yml := Inr (YBool b)\<rparr>) st = (Inl AttributeError, st)"
  by (simp add: main_def bind_lift_Inl bind_lift_Inr)

subsection \<open>The credentials\<close>

lemma lookup_path_getitem:
  "lookup_path c (a # p) =
     (case py_getitem c a of Inl e \<Rightarrow> None | Inr t \<Rightarrow> lookup_path t p)"
  by (cases c) (simp_all split: option.splits)

lemma lookup_path_dict_set:
  "k \<noteq> a \<Longrightarrow> lookup_path (YDict (dict_set d k x)) (a # p) = lookup_path (YDict d) (a # p)"
  by (simp add: map_of_dict_set)

lemma lookup_two:
  "py_getitem c a = Inr t \<Longrightarrow> py_getitem t b = Inr v \<Longrightarrow> lookup_path c [a, b] = Some v"
  by (simp add: lookup_path_getitem)

text \<open>
  Claim C8, as the program has it. When, in the merged configuration, the credential
  \<^verbatim>\<open>todoist.apiToken\<close> or the feed address \<^verbatim>\<open>schoology.calendar\<close> is not a string, the
  run ends with an exception and the state is the one it started in: no call to the
  network has been made.
\<close>

theorem main_validates_credentials:
  assumes cfg: "config_yml E = Inr loaded"
    and mg: "merge loaded DEFAULT_CONFIG = Inr config"
    and bad: "(\<nexists>s. lookup_path config [''todoist'', ''apiToken''] = Some (YStr s)) \<or>
              (\<nexists>s. lookup_path config [''schoology'', ''calendar''] = Some (YStr s))"
  shows "\<exists>e. main E st = (Inl e, st)"
proof -
  have "is_dict DEFAULT_CONFIG" by (simp add: DEFAULT_CONFIG_def)
  with mg have "is_dict config" by (rule merge_dict)
  then obtain d where config: "config = YDict d" by (cases config) auto
  note mg' = mg [unfolded config]
  note step = main_def bind_lift_Inl bind_lift_Inr bind_return bind_throw cfg mg'
  show ?thesis
  proof (cases "py_getitem (YDict d) ''storage''")
    case (Inl e)
    then show ?thesis by (simp add: step del: py_getitem.simps)
  next
    case sg: (Inr sv)
    show ?thesis
    proof (cases "is_str sv")
      case False
      with sg show ?thesis by (cases sv) (simp_all add: step del: py_getitem.simps)
    next
      case True
      then obtain s where sv: "sv = YStr s" by (cases sv) auto
      let ?c = "YDict (dict_set d ''storage'' (YStr (expanduser E s)))"
      have same: "lookup_path ?c (a # p) = lookup_path config (a # p)"
        if "a \<noteq> ''storage''" for a p
        using that unfolding config by (simp add: lookup_path_dict_set del: lookup_path.simps)
      show ?thesis
      proof (cases "py_getitem ?c ''todoist''")
        case (Inl e)
        with sg sv show ?thesis by (simp add: step del: py_getitem.simps)
      next
        case td: (Inr t)
        show ?thesis
        proof (cases "py_getitem t ''apiToken''")
          case (Inl e)
          with sg sv td show ?thesis by (simp add: step del: py_getitem.simps)
        next
          case tk: (Inr av)
          show ?thesis
          proof (cases "is_str av")
            case False
            with sg sv td tk show ?thesis
              by (cases av) (simp_all add: step del: py_getitem.simps)
          next
            case True
            then obtain token where av: "av = YStr token" by (cases av) auto
            from lookup_two [OF td tk] same [of "''todoist''" "[''apiToken'']"] av
            have "lookup_path config [''todoist'', ''apiToken''] = Some (YStr token)"
              by simp
            with bad have nocal:
              "\<nexists>s. lookup_path config [''schoology'', ''calendar''] = Some (YStr s)"
              by blast
            show ?thesis
            proof (cases "py_getitem ?c ''schoology''")
              case (Inl e)
              with sg sv td tk av show ?thesis by (simp add: step del: py_getitem.simps)
            next
              case sc: (Inr t2)
              show ?thesis
              proof (cases "py_getitem t2 ''calendar''")
                case (Inl e)
                with sg sv td tk av sc show ?thesis
                  by (simp add: step del: py_getitem.simps)
              next
                case cl: (Inr cv)
                from lookup_two [OF sc cl] same [of "''schoology''" "[''calendar'']"]
                have "lookup_path config [''schoology'', ''calendar''] = Some cv"
                  by simp
                with nocal have "\<not> is_str cv" by (cases cv) auto
                with sg sv td tk av sc cl show ?thesis
                  by (cases cv) (simp_all add: step del: py_getitem.simps)
              qed
            qed
          qed
        qed
      qed
    qed
  qed
qed

lemma empty_credentials_run:
  "main empty_credentials_env example_state =
     (Inl (External ''Invalid API token''),
      \<lparr>already_imported = JArr [], files = (\<lambda>p. NoFile), stdout = [],
       calls = [Login []]\<rparr>)"
  by (simp add: run_defs todoist_login.simps empty_credentials_env_def example_env_def
      example_state_def DEFAULT_CONFIG_def)

text \<open>
  The claim C8 as it was stated fails for the empty string: it is a string, the run
  passes the two tests and calls the task service with the empty credential.
\<close>

theorem empty_credentials_reach_the_network:
  "(\<exists>M. merge (YDict [(''schoology'', YDict [(''calendar'', YStr [])]),
                      (''todoist'', YDict [(''apiToken'', YStr [])])]) DEFAULT_CONFIG = Inr M
       \<and> lookup_path M [''todoist'', ''apiToken''] = Some (YStr [])
       \<and> lookup_path M [''schoology'', ''calendar''] = Some (YStr [])) \<and>
   config_yml empty_credentials_env
     = Inr (YDict [(''schoology'', YDict [(''calendar'', YStr [])]),
                   (''todoist'', YDict [(''apiToken'', YStr [])])]) \<and>
   calls example_state = [] \<and>
   calls (snd (main empty_credentials_env example_state)) = [Login []]"
  by (simp add: empty_credentials_run)
     (simp add: DEFAULT_CONFIG_def empty_credentials_env_def example_env_def example_state_def)

theorem main_validates_credentials_witness:
  "config_yml (example_env\<lparr>config_yml := Inr (YDict [(''todoist'', YDict [(''apiToken'', YInt 7)])])\<rparr>)
     = Inr (YDict [(''todoist'', YDict [(''apiToken'', YInt 7)])]) \<and>
   merge (YDict [(''todoist'', YDict [(''apiToken'', YInt 7)])]) DEFAULT_CONFIG
     = Inr (YDict
         [(''schoology'', YDict [(''calendar'', YNull)]),
          (''todoist'', YDict [(''apiToken'', YInt 7), (''project'', YStr ''Inbox''),
                              (''labels'', YList [YStr ''Todology''])]),
          (''storage'', YStr ''~/.todology'')]) \<and>
   (\<exists>e. main (example_env\<lparr>config_yml := Inr (YDict [(''todoist'', YDict [(''apiToken'', YInt 7)])])\<rparr>)
           example_state = (Inl e, example_state))"
proof -
  let ?doc = "YDict [(''todoist'', YDict [(''apiToken'', YInt 7)])]"
  let ?E = "example_env\<lparr>config_yml := Inr ?doc\<rparr>"
  let ?M = "YDict
         [(''schoology'', YDict [(''calendar'', YNull)]),
          (''todoist'', YDict [(''apiToken'', YInt 7), (''project'', YStr ''Inbox''),
                              (''labels'', YList [YStr ''Todology''])]),
          (''storage'', YStr ''~/.todology'')]"
  have c: "config_yml ?E = Inr ?doc" by simp
  have m: "merge ?doc DEFAULT_CONFIG = Inr ?M" by (simp add: DEFAULT_CONFIG_def)
  have b: "(\<nexists>s. lookup_path ?M [''todoist'', ''apiToken''] = Some (YStr s)) \<or>
           (\<nexists>s. lookup_path ?M [''schoology'', ''calendar''] = Some (YStr s))"
    by simp
  from main_validates_credentials [OF c m b, of example_state] c m show ?thesis
    by blast
qed


subsection \<open>The address that is fetched\<close>

text \<open>
  Claim C9. The claim: the fetch goes to the HTTPS address got by removing a leading
  \<^verbatim>\<open>webcal://\<close> and leaving the rest unchanged. The program strips characters, not
  a prefix: after \<^verbatim>\<open>webcal://\<close> it goes on removing every leading character among
  \<^verbatim>\<open>w e b c a l : /\<close>, so the host \<^verbatim>\<open>app.schoology.com\<close> loses its first letter, and
  an address with no scheme hint loses its leading letters too. The run with that
  address in its configuration fetches from the host \<^verbatim>\<open>pp.schoology.com\<close>.
\<close>

theorem feed_url_strips_host:
  "feed_url ''webcal://app.schoology.com/calendar/feed/ical/1''
     = ''https://pp.schoology.com/calendar/feed/ical/1'' \<and>
   spec_feed_url ''webcal://app.schoology.com/calendar/feed/ical/1''
     = ''https://app.schoology.com/calendar/feed/ical/1'' \<and>
   feed_url ''calendar.example.org/feed.ics'' = ''https://ndar.example.org/feed.ics'' \<and>
   spec_feed_url ''calendar.example.org/feed.ics'' = ''https://calendar.example.org/feed.ics'' \<and>
   main schoology_env example_state =
     (Inl (External ''HTTP Error 404''),
      \<lparr>already_imported = JArr [], files = (\<lambda>p. NoFile), stdout = [],
       calls = [Login ''0123abcd'',
                Fetch ''https://pp.schoology.com/calendar/feed/ical/1'']\<rparr>)"
proof -
  have "main schoology_env example_state =
     (Inl (External ''HTTP Error 404''),
      \<lparr>already_imported = JArr [], files = (\<lambda>p. NoFile), stdout = [],
       calls = [Login ''0123abcd'',
                Fetch ''https://pp.schoology.com/calendar/feed/ical/1'']\<rparr>)"
    by (simp add: run_defs todoist_login.simps schoology_env_def example_env_def
        example_state_def DEFAULT_CONFIG_def)
  then show ?thesis
    by (simp add: feed_url_def spec_feed_url_def lstrip_def)
qed

subsection \<open>The rate limiter\<close>










end
